theory Spec2Isabelle
  imports Main "HOL-Library.Word"
begin

section \<open>JavaScript strings, numbers and values\<close>

text \<open>
  A JavaScript string is a sequence of 16-bit code units. The helper \<open>js\<close> writes an
  ASCII literal of the source as such a sequence.
\<close>

type_synonym jschar = "16 word"
type_synonym jsstring = "jschar list"

definition js :: "string \<Rightarrow> jsstring" where
  "js s = map of_char s"

text \<open>
  The type \<open>number\<close>. What the cache does with a number is to write it with
  \<open>JSON.stringify\<close> and to read it back with \<open>JSON.parse\<close>, so a finite non-zero number
  is represented by what \<open>Number::toString\<close> (ECMA-262, 6.1.6.1.20) writes of it: its
  sign, the decimal digits \<open>d\<^sub>1 \<dots> d\<^sub>k\<close> of the integer \<open>s\<close> with \<open>k\<close> as small as possible
  (so \<open>d\<^sub>1\<close> and \<open>d\<^sub>k\<close> are not zero) and the exponent \<open>n\<close>; \<open>Dec neg m n\<close> is the number
  \<open>\<plusminus> 0.d\<^sub>1\<dots>d\<^sub>k \<times> 10\<^sup>n\<close>. Every finite binary64 value has exactly one such form, and
  different values have different forms. The range and the precision of binary64 are not
  modelled: every decimal is a number here. \<open>NaN\<close>, the two infinities and the two
  zeros are values of their own.
\<close>

datatype digit = D0 | D1 | D2 | D3 | D4 | D5 | D6 | D7 | D8 | D9

datatype nzdigit = N1 | N2 | N3 | N4 | N5 | N6 | N7 | N8 | N9

datatype mantissa = One nzdigit | Many nzdigit "digit list" nzdigit

datatype jsnum = NaN | PosInfinity | NegInfinity | Zero bool | Dec bool mantissa int

fun digit_of_nz :: "nzdigit \<Rightarrow> digit" where
  "digit_of_nz N1 = D1"
| "digit_of_nz N2 = D2"
| "digit_of_nz N3 = D3"
| "digit_of_nz N4 = D4"
| "digit_of_nz N5 = D5"
| "digit_of_nz N6 = D6"
| "digit_of_nz N7 = D7"
| "digit_of_nz N8 = D8"
| "digit_of_nz N9 = D9"

fun nonzero :: "digit \<Rightarrow> nzdigit option" where
  "nonzero D0 = None"
| "nonzero D1 = Some N1"
| "nonzero D2 = Some N2"
| "nonzero D3 = Some N3"
| "nonzero D4 = Some N4"
| "nonzero D5 = Some N5"
| "nonzero D6 = Some N6"
| "nonzero D7 = Some N7"
| "nonzero D8 = Some N8"
| "nonzero D9 = Some N9"

fun digits :: "mantissa \<Rightarrow> digit list" where
  "digits (One d) = [digit_of_nz d]"
| "digits (Many a ds b) = digit_of_nz a # ds @ [digit_of_nz b]"

fun nat_of_digit :: "digit \<Rightarrow> nat" where
  "nat_of_digit D0 = 0"
| "nat_of_digit D1 = 1"
| "nat_of_digit D2 = 2"
| "nat_of_digit D3 = 3"
| "nat_of_digit D4 = 4"
| "nat_of_digit D5 = 5"
| "nat_of_digit D6 = 6"
| "nat_of_digit D7 = 7"
| "nat_of_digit D8 = 8"
| "nat_of_digit D9 = 9"

definition digit_of_nat :: "nat \<Rightarrow> digit" where
  "digit_of_nat n = [D0, D1, D2, D3, D4, D5, D6, D7, D8, D9] ! (n mod 10)"

fun digits_of :: "nat \<Rightarrow> digit list" where
  "digits_of n = (if n < 10 then [digit_of_nat n] else digits_of (n div 10) @ [digit_of_nat n])"

declare digits_of.simps [simp del]

definition nat_of_digits :: "digit list \<Rightarrow> nat" where
  "nat_of_digits ds = foldl (\<lambda>a d. 10 * a + nat_of_digit d) 0 ds"

fun digit_char :: "digit \<Rightarrow> jschar" where
  "digit_char D0 = 0x30"
| "digit_char D1 = 0x31"
| "digit_char D2 = 0x32"
| "digit_char D3 = 0x33"
| "digit_char D4 = 0x34"
| "digit_char D5 = 0x35"
| "digit_char D6 = 0x36"
| "digit_char D7 = 0x37"
| "digit_char D8 = 0x38"
| "digit_char D9 = 0x39"

definition is_digit :: "jschar \<Rightarrow> bool" where
  "is_digit c = (0x30 \<le> c \<and> c \<le> 0x39)"

definition digit_val :: "jschar \<Rightarrow> digit" where
  "digit_val c = digit_of_nat (unat c - 48)"

definition is_finite :: "jsnum \<Rightarrow> bool" where
  "is_finite x = (case x of NaN \<Rightarrow> False | PosInfinity \<Rightarrow> False | NegInfinity \<Rightarrow> False | _ \<Rightarrow> True)"

text \<open>
  \<open>Number::toString\<close> in radix 10. With \<open>k\<close> the number of digits: an integer of at
  most 21 digits is written in full; a number with \<open>0 < n \<le> 21\<close> has its point after
  \<open>n\<close> digits; one with \<open>-6 < n \<le> 0\<close> is \<open>0.\<close>, \<open>-n\<close> zeros and the digits; every other
  number is written with an exponent, \<open>e+\<close> or \<open>e-\<close> and the decimal digits of \<open>|n - 1|\<close>.
\<close>

definition exponent_text :: "int \<Rightarrow> jsstring" where
  "exponent_text e =
     0x65 # (if e < 0 then 0x2D else 0x2B) # map digit_char (digits_of (nat \<bar>e\<bar>))"

definition positive_text :: "mantissa \<Rightarrow> int \<Rightarrow> jsstring" where
  "positive_text m n =
     (let ds = digits m; k = int (length ds) in
      if k \<le> n \<and> n \<le> 21 then map digit_char ds @ replicate (nat (n - k)) 0x30
      else if 0 < n \<and> n \<le> 21 then
        map digit_char (take (nat n) ds) @ 0x2E # map digit_char (drop (nat n) ds)
      else if -6 < n \<and> n \<le> 0 then
        0x30 # 0x2E # replicate (nat (- n)) 0x30 @ map digit_char ds
      else if tl ds = [] then map digit_char ds @ exponent_text (n - 1)
      else digit_char (hd ds) # 0x2E # map digit_char (tl ds) @ exponent_text (n - 1))"

fun Number_toString :: "jsnum \<Rightarrow> jsstring" where
  "Number_toString NaN = js ''NaN''"
| "Number_toString PosInfinity = js ''Infinity''"
| "Number_toString NegInfinity = js ''-Infinity''"
| "Number_toString (Zero neg) = js ''0''"
| "Number_toString (Dec neg m n) = (if neg then 0x2D # positive_text m n else positive_text m n)"

text \<open>
  The values \<open>JSON.parse\<close> produces and \<open>JSON.stringify\<close> is given: \<open>null\<close>, booleans,
  numbers, strings, arrays, and objects as their properties in property order. The
  cache gives \<open>JSON.stringify\<close> nothing else: no \<open>undefined\<close>, no function, no object
  with a \<open>toJSON\<close>.
\<close>

datatype jsvalue =
    JNull
  | JBool bool
  | JNum jsnum
  | JStr jsstring
  | JArr "jsvalue list"
  | JObj "(jsstring \<times> jsvalue) list"

fun Array_isArray :: "jsvalue \<Rightarrow> bool" where
  "Array_isArray (JArr vs) = True"
| "Array_isArray v = False"

section \<open>JSON.stringify\<close>

text \<open>
  \<open>QuoteJSONString\<close> (ECMA-262, 25.5.2.3): the two-character escapes, \<open>\uXXXX\<close> for
  the other code units below 0x20 and for a surrogate that is not part of a pair, and
  every other code unit as it is.
\<close>

definition hex_char :: "nat \<Rightarrow> jschar" where
  "hex_char n = (if n < 10 then of_nat (48 + n) else of_nat (87 + n))"

definition unicode_escape :: "jschar \<Rightarrow> jsstring" where
  "unicode_escape c =
     [0x5C, 0x75, hex_char (unat c div 4096), hex_char (unat c div 256 mod 16),
      hex_char (unat c div 16 mod 16), hex_char (unat c mod 16)]"

definition quote_unit :: "jschar \<Rightarrow> jsstring" where
  "quote_unit c =
     (if c = 0x08 then [0x5C, 0x62]
      else if c = 0x09 then [0x5C, 0x74]
      else if c = 0x0A then [0x5C, 0x6E]
      else if c = 0x0C then [0x5C, 0x66]
      else if c = 0x0D then [0x5C, 0x72]
      else if c = 0x22 then [0x5C, 0x22]
      else if c = 0x5C then [0x5C, 0x5C]
      else if c < 0x20 then unicode_escape c
      else [c])"

definition is_leading_surrogate :: "jschar \<Rightarrow> bool" where
  "is_leading_surrogate c = (0xD800 \<le> c \<and> c \<le> 0xDBFF)"

definition is_trailing_surrogate :: "jschar \<Rightarrow> bool" where
  "is_trailing_surrogate c = (0xDC00 \<le> c \<and> c \<le> 0xDFFF)"

fun quote_units :: "jsstring \<Rightarrow> jsstring" where
  "quote_units [] = []"
| "quote_units [c] =
     (if is_leading_surrogate c \<or> is_trailing_surrogate c then unicode_escape c
      else quote_unit c)"
| "quote_units (c # d # cs) =
     (if is_leading_surrogate c \<and> is_trailing_surrogate d then c # d # quote_units cs
      else if is_leading_surrogate c \<or> is_trailing_surrogate c
        then unicode_escape c @ quote_units (d # cs)
      else quote_unit c @ quote_units (d # cs))"

definition QuoteJSONString :: "jsstring \<Rightarrow> jsstring" where
  "QuoteJSONString s = 0x22 # quote_units s @ [0x22]"

fun join :: "jsstring list \<Rightarrow> jsstring" where
  "join [] = []"
| "join [x] = x"
| "join (x # y # zs) = x @ 0x2C # join (y # zs)"

text \<open>
  \<open>JSON.stringify\<close> with one argument: no indentation. A number that is not finite is
  written \<open>null\<close>.
\<close>

fun JSON_stringify :: "jsvalue \<Rightarrow> jsstring" where
  "JSON_stringify JNull = js ''null''"
| "JSON_stringify (JBool b) = (if b then js ''true'' else js ''false'')"
| "JSON_stringify (JNum x) = (if is_finite x then Number_toString x else js ''null'')"
| "JSON_stringify (JStr s) = QuoteJSONString s"
| "JSON_stringify (JArr vs) = 0x5B # join (map JSON_stringify vs) @ [0x5D]"
| "JSON_stringify (JObj kvs) =
     0x7B # join (map (\<lambda>(k, v). QuoteJSONString k @ 0x3A # JSON_stringify v) kvs) @ [0x7D]"

section \<open>JSON.parse\<close>

text \<open>
  \<open>JSON.parse\<close> with one argument, in two passes: the text is cut into the tokens of
  the JSON grammar (ECMA-404), and the tokens are read by a machine that keeps the
  containers under construction on a stack. A text that is not JSON is a
  \<open>SyntaxError\<close>. \<open>Rejected\<close> is the other failure of this program: a promise of
  the storage module that rejects.
\<close>

datatype error = SyntaxError | Rejected

datatype token =
    LBracket | RBracket | LBrace | RBrace | Colon | Comma
  | TNull | TTrue | TFalse
  | TNum jsnum
  | TStr jsstring

subsection \<open>Numbers\<close>

text \<open>
  A number is \<open>-\<close>\<open>?\<close> \<open>int\<close> \<open>frac\<close>\<open>?\<close> \<open>exp\<close>\<open>?\<close>, where \<open>int\<close> has no
  leading zero. Its value is the decimal \<open>0.(int frac) \<times> 10\<close> to the power
  \<open>length int + exp\<close>, brought to the form of \<open>jsnum\<close>: the leading zeros are dropped,
  each lowering the exponent by one, and the trailing zeros are dropped.
\<close>

definition lex_digits :: "jsstring \<Rightarrow> digit list \<times> jsstring" where
  "lex_digits s = (map digit_val (takeWhile is_digit s), dropWhile is_digit s)"

definition lex_sign :: "jsstring \<Rightarrow> bool \<times> jsstring" where
  "lex_sign s = (case s of [] \<Rightarrow> (False, s) | c # cs \<Rightarrow> if c = 0x2D then (True, cs) else (False, s))"

definition lex_fraction :: "jsstring \<Rightarrow> (digit list \<times> jsstring) option" where
  "lex_fraction s =
     (case s of
        [] \<Rightarrow> Some ([], s)
      | c # cs \<Rightarrow>
          if c = 0x2E then
            (case lex_digits cs of (ds, rest) \<Rightarrow> if ds = [] then None else Some (ds, rest))
          else Some ([], s))"

definition lex_exponent_sign :: "jsstring \<Rightarrow> bool \<times> jsstring" where
  "lex_exponent_sign s =
     (case s of
        [] \<Rightarrow> (False, s)
      | c # cs \<Rightarrow> if c = 0x2D then (True, cs) else if c = 0x2B then (False, cs) else (False, s))"

definition lex_exponent :: "jsstring \<Rightarrow> (int \<times> jsstring) option" where
  "lex_exponent s =
     (case s of
        [] \<Rightarrow> Some (0, s)
      | c # cs \<Rightarrow>
          if c = 0x65 \<or> c = 0x45 then
            (case lex_exponent_sign cs of (neg, s') \<Rightarrow>
               (case lex_digits s' of (ds, rest) \<Rightarrow>
                  if ds = [] then None
                  else Some (if neg then - int (nat_of_digits ds) else int (nat_of_digits ds), rest)))
          else Some (0, s))"

definition mantissa_of :: "digit list \<Rightarrow> mantissa option" where
  "mantissa_of ds =
     (case rev (dropWhile (\<lambda>d. d = D0) (rev ds)) of
        [] \<Rightarrow> None
      | [d] \<Rightarrow> map_option One (nonzero d)
      | d # r \<Rightarrow>
          (case (nonzero d, nonzero (last r)) of
             (Some a, Some b) \<Rightarrow> Some (Many a (butlast r) b)
           | _ \<Rightarrow> None))"

definition decimal :: "bool \<Rightarrow> digit list \<Rightarrow> digit list \<Rightarrow> int \<Rightarrow> jsnum" where
  "decimal neg ip fp e =
     (let ds = ip @ fp; zeros = takeWhile (\<lambda>d. d = D0) ds in
      case mantissa_of (dropWhile (\<lambda>d. d = D0) ds) of
        None \<Rightarrow> Zero neg
      | Some m \<Rightarrow> Dec neg m (int (length ip) + e - int (length zeros)))"

definition lex_unsigned :: "bool \<Rightarrow> jsstring \<Rightarrow> (jsnum \<times> jsstring) option" where
  "lex_unsigned neg s =
     (case lex_digits s of (ip, s2) \<Rightarrow>
        if ip = [] \<or> (hd ip = D0 \<and> tl ip \<noteq> []) then None
        else
          (case lex_fraction s2 of
             None \<Rightarrow> None
           | Some (fp, s3) \<Rightarrow>
               (case lex_exponent s3 of
                  None \<Rightarrow> None
                | Some (e, s4) \<Rightarrow> Some (decimal neg ip fp e, s4))))"

definition lex_number :: "jsstring \<Rightarrow> (jsnum \<times> jsstring) option" where
  "lex_number s = (case lex_sign s of (neg, s1) \<Rightarrow> lex_unsigned neg s1)"

subsection \<open>Strings\<close>

text \<open>
  \<open>lex_string\<close> reads a string after its opening quote, up to the closing one: a code
  unit below 0x20 is refused, a backslash starts one of the escapes.
\<close>

definition hex_val :: "jschar \<Rightarrow> nat option" where
  "hex_val c =
     (if 0x30 \<le> c \<and> c \<le> 0x39 then Some (unat c - 48)
      else if 0x41 \<le> c \<and> c \<le> 0x46 then Some (unat c - 55)
      else if 0x61 \<le> c \<and> c \<le> 0x66 then Some (unat c - 87)
      else None)"

definition unescape :: "jschar \<Rightarrow> jschar option" where
  "unescape c =
     (if c = 0x22 then Some 0x22
      else if c = 0x5C then Some 0x5C
      else if c = 0x2F then Some 0x2F
      else if c = 0x62 then Some 0x08
      else if c = 0x66 then Some 0x0C
      else if c = 0x6E then Some 0x0A
      else if c = 0x72 then Some 0x0D
      else if c = 0x74 then Some 0x09
      else None)"

definition push_unit :: "jschar \<Rightarrow> (jsstring \<times> jsstring) option \<Rightarrow> (jsstring \<times> jsstring) option" where
  "push_unit u r = map_option (\<lambda>(s, rest). (u # s, rest)) r"

fun lex_string :: "jsstring \<Rightarrow> (jsstring \<times> jsstring) option"
  and lex_escape :: "jsstring \<Rightarrow> (jsstring \<times> jsstring) option"
  and lex_hex :: "jsstring \<Rightarrow> (jsstring \<times> jsstring) option" where
  "lex_string [] = None"
| "lex_string (c # cs) =
     (if c = 0x22 then Some ([], cs)
      else if c = 0x5C then lex_escape cs
      else if c < 0x20 then None
      else push_unit c (lex_string cs))"
| "lex_escape [] = None"
| "lex_escape (e # cs) =
     (if e = 0x75 then lex_hex cs
      else (case unescape e of None \<Rightarrow> None | Some u \<Rightarrow> push_unit u (lex_string cs)))"
| "lex_hex (a # b # c # d # cs) =
     (case (hex_val a, hex_val b, hex_val c, hex_val d) of
        (Some h3, Some h2, Some h1, Some h0) \<Rightarrow>
          push_unit (of_nat (4096 * h3 + 256 * h2 + 16 * h1 + h0)) (lex_string cs)
      | _ \<Rightarrow> None)"
| "lex_hex cs = None"

subsection \<open>Tokens\<close>

definition lex_literal :: "jsstring \<Rightarrow> (token \<times> jsstring) option" where
  "lex_literal s =
     (if take 4 s = js ''null'' then Some (TNull, drop 4 s)
      else if take 4 s = js ''true'' then Some (TTrue, drop 4 s)
      else if take 5 s = js ''false'' then Some (TFalse, drop 5 s)
      else None)"

fun lex_token :: "jsstring \<Rightarrow> (token \<times> jsstring) option" where
  "lex_token [] = None"
| "lex_token (c # cs) =
     (if c = 0x5B then Some (LBracket, cs)
      else if c = 0x5D then Some (RBracket, cs)
      else if c = 0x7B then Some (LBrace, cs)
      else if c = 0x7D then Some (RBrace, cs)
      else if c = 0x3A then Some (Colon, cs)
      else if c = 0x2C then Some (Comma, cs)
      else if c = 0x22 then map_option (\<lambda>(s, rest). (TStr s, rest)) (lex_string cs)
      else if c = 0x2D \<or> is_digit c then
        map_option (\<lambda>(x, rest). (TNum x, rest)) (lex_number (c # cs))
      else lex_literal (c # cs))"

definition is_ws :: "jschar \<Rightarrow> bool" where
  "is_ws c = (c = 0x20 \<or> c = 0x09 \<or> c = 0x0A \<or> c = 0x0D)"

lemma lex_digits_length: "lex_digits s = (ds, rest) \<Longrightarrow> length rest \<le> length s"
  by (auto simp: lex_digits_def length_dropWhile_le)

lemma lex_digits_shorter:
  assumes "lex_digits s = (ds, rest)" and "ds \<noteq> []"
  shows "length rest < length s"
proof -
  from assms have "takeWhile is_digit s \<noteq> []" and rest: "rest = dropWhile is_digit s"
    by (auto simp: lex_digits_def)
  then have "length (takeWhile is_digit s) > 0" by simp
  moreover have "length (takeWhile is_digit s) + length (dropWhile is_digit s) = length s"
    by (metis length_append takeWhile_dropWhile_id)
  ultimately have "length (dropWhile is_digit s) < length s" by linarith
  then show ?thesis by (simp only: rest)
qed

lemma lex_sign_length: "lex_sign s = (neg, rest) \<Longrightarrow> length rest \<le> length s"
  by (auto simp: lex_sign_def split: list.splits if_splits)

lemma lex_fraction_length: "lex_fraction s = Some (ds, rest) \<Longrightarrow> length rest \<le> length s"
  by (auto simp: lex_fraction_def split: list.splits if_splits prod.splits
      dest!: lex_digits_length)

lemma lex_exponent_sign_length: "lex_exponent_sign s = (neg, rest) \<Longrightarrow> length rest \<le> length s"
  by (auto simp: lex_exponent_sign_def split: list.splits if_splits)

lemma lex_exponent_length: "lex_exponent s = Some (e, rest) \<Longrightarrow> length rest \<le> length s"
  by (auto simp: lex_exponent_def split: list.splits if_splits prod.splits
      dest!: lex_digits_length lex_exponent_sign_length)

lemma lex_number_length:
  assumes "lex_number s = Some (x, rest)"
  shows "length rest < length s"
proof -
  obtain neg s1 where s1: "lex_sign s = (neg, s1)" by (cases "lex_sign s")
  obtain ip s2 where s2: "lex_digits s1 = (ip, s2)" by (cases "lex_digits s1")
  from assms s1 s2 have ip: "ip \<noteq> []"
    by (auto simp: lex_number_def lex_unsigned_def split: if_splits)
  from assms s1 s2 ip obtain fp s3 e where
    s3: "lex_fraction s2 = Some (fp, s3)" and s4: "lex_exponent s3 = Some (e, rest)"
    by (auto simp: lex_number_def lex_unsigned_def split: if_splits option.splits)
  have "length s2 < length s1" using s2 ip by (rule lex_digits_shorter)
  moreover have "length s1 \<le> length s" using s1 by (rule lex_sign_length)
  moreover have "length s3 \<le> length s2" using s3 by (rule lex_fraction_length)
  moreover have "length rest \<le> length s3" using s4 by (rule lex_exponent_length)
  ultimately show ?thesis by linarith
qed

lemma push_unit_length:
  "push_unit u r = Some (t, rest) \<Longrightarrow> \<exists>t'. r = Some (t', rest)"
  by (cases r) (auto simp: push_unit_def)

lemma lex_string_length:
  "lex_string s = Some (t, rest) \<Longrightarrow> length rest < length s"
  "lex_escape s = Some (t, rest) \<Longrightarrow> length rest < length s"
  "lex_hex s = Some (t, rest) \<Longrightarrow> length rest < length s"
proof (induction s and s and s arbitrary: t and t and t rule: lex_string_lex_escape_lex_hex.induct)
  case (2 c cs)
  then show ?case
    by (fastforce split: if_splits dest!: push_unit_length)
next
  case (4 e cs)
  then show ?case
    by (fastforce split: if_splits option.splits dest!: push_unit_length)
next
  case (5 a b c d cs)
  then show ?case
    by (fastforce split: option.splits dest!: push_unit_length)
qed simp_all

lemma lex_literal_length: "lex_literal s = Some (t, rest) \<Longrightarrow> length rest < length s"
proof -
  have "take n s = js w \<Longrightarrow> w \<noteq> [] \<Longrightarrow> 0 < n \<Longrightarrow> length (drop n s) < length s" for n w
    by (cases s) (auto simp: js_def)
  then show "lex_literal s = Some (t, rest) \<Longrightarrow> length rest < length s"
    by (auto simp: lex_literal_def split: if_splits)
qed

lemma lex_token_length: "lex_token s = Some (t, rest) \<Longrightarrow> length rest < length s"
proof (cases s)
  case Nil
  assume "lex_token s = Some (t, rest)"
  with Nil show ?thesis by simp
next
  case (Cons c cs)
  assume "lex_token s = Some (t, rest)"
  with Cons show ?thesis
    by (auto split: if_splits dest: lex_string_length lex_number_length lex_literal_length)
qed

text \<open>The tokens of a text: white space between tokens is skipped.\<close>

function tokenize :: "jsstring \<Rightarrow> token list option" where
  "tokenize s =
     (case dropWhile is_ws s of
        [] \<Rightarrow> Some []
      | c # cs \<Rightarrow>
          (case lex_token (c # cs) of
             None \<Rightarrow> None
           | Some (t, rest) \<Rightarrow> map_option (Cons t) (tokenize rest)))"
  by pat_completeness auto
termination
proof (relation "measure length")
  fix s :: jsstring and c cs x t rest
  assume "dropWhile is_ws s = c # cs" and "lex_token (c # cs) = Some x" and "(t, rest) = x"
  then have "length rest < length (dropWhile is_ws s)"
    using lex_token_length [of "c # cs" t rest] by simp
  also have "\<dots> \<le> length s" by (rule length_dropWhile_le)
  finally show "(rest, s) \<in> measure length" by simp
qed simp

declare tokenize.simps [simp del]

subsection \<open>Reading the tokens\<close>

text \<open>
  The properties of an object are kept in property order: the keys that are array
  indices (a decimal without leading zero, below \<open>2\<^sup>3\<^sup>2 - 1\<close>) first, in ascending order,
  then the other keys in the order they were created. A key that comes a second time
  replaces the value and keeps the place.
\<close>

definition array_index :: "jsstring \<Rightarrow> nat option" where
  "array_index k =
     (if k \<noteq> [] \<and> list_all is_digit k \<and> (hd k \<noteq> 0x30 \<or> tl k = [])
         \<and> nat_of_digits (map digit_val k) < 4294967295
      then Some (nat_of_digits (map digit_val k)) else None)"

fun insert_index :: "nat \<Rightarrow> jsstring \<Rightarrow> jsvalue \<Rightarrow> (jsstring \<times> jsvalue) list \<Rightarrow> (jsstring \<times> jsvalue) list" where
  "insert_index i k v [] = [(k, v)]"
| "insert_index i k v ((k', v') # kvs) =
     (case array_index k' of
        None \<Rightarrow> (k, v) # (k', v') # kvs
      | Some j \<Rightarrow> if j < i then (k', v') # insert_index i k v kvs else (k, v) # (k', v') # kvs)"

definition obj_put :: "jsstring \<Rightarrow> jsvalue \<Rightarrow> (jsstring \<times> jsvalue) list \<Rightarrow> (jsstring \<times> jsvalue) list" where
  "obj_put k v kvs =
     (if k \<in> fst ` set kvs then map (\<lambda>(k', v'). if k' = k then (k', v) else (k', v')) kvs
      else (case array_index k of None \<Rightarrow> kvs @ [(k, v)] | Some i \<Rightarrow> insert_index i k v kvs))"

text \<open>
  A frame is an array or an object under construction, one of whose values is being
  read: the elements so far, or the properties so far and the key of the value. The
  states say what may come next.
\<close>

datatype frame = InArr "jsvalue list" | InObj "(jsstring \<times> jsvalue) list" jsstring

datatype pstate =
    NeedValue "frame list"
  | ArrOpen "frame list"
  | ArrNext "jsvalue list" "frame list"
  | ObjOpen "frame list"
  | ObjKey "(jsstring \<times> jsvalue) list" "frame list"
  | ObjColon "(jsstring \<times> jsvalue) list" jsstring "frame list"
  | ObjNext "(jsstring \<times> jsvalue) list" "frame list"
  | Finished jsvalue

fun deliver :: "jsvalue \<Rightarrow> frame list \<Rightarrow> pstate" where
  "deliver v [] = Finished v"
| "deliver v (InArr vs # st) = ArrNext (vs @ [v]) st"
| "deliver v (InObj kvs k # st) = ObjNext (obj_put k v kvs) st"

fun open_value :: "token \<Rightarrow> frame list \<Rightarrow> pstate option" where
  "open_value LBracket st = Some (ArrOpen st)"
| "open_value LBrace st = Some (ObjOpen st)"
| "open_value TNull st = Some (deliver JNull st)"
| "open_value TTrue st = Some (deliver (JBool True) st)"
| "open_value TFalse st = Some (deliver (JBool False) st)"
| "open_value (TNum x) st = Some (deliver (JNum x) st)"
| "open_value (TStr s) st = Some (deliver (JStr s) st)"
| "open_value t st = None"

fun open_key :: "token \<Rightarrow> (jsstring \<times> jsvalue) list \<Rightarrow> frame list \<Rightarrow> pstate option" where
  "open_key (TStr k) kvs st = Some (ObjColon kvs k st)"
| "open_key t kvs st = None"

fun step :: "token \<Rightarrow> pstate \<Rightarrow> pstate option" where
  "step t (NeedValue st) = open_value t st"
| "step t (ArrOpen st) =
     (if t = RBracket then Some (deliver (JArr []) st) else open_value t (InArr [] # st))"
| "step t (ArrNext vs st) =
     (if t = RBracket then Some (deliver (JArr vs) st)
      else if t = Comma then Some (NeedValue (InArr vs # st))
      else None)"
| "step t (ObjOpen st) =
     (if t = RBrace then Some (deliver (JObj []) st) else open_key t [] st)"
| "step t (ObjKey kvs st) = open_key t kvs st"
| "step t (ObjColon kvs k st) =
     (if t = Colon then Some (NeedValue (InObj kvs k # st)) else None)"
| "step t (ObjNext kvs st) =
     (if t = RBrace then Some (deliver (JObj kvs) st)
      else if t = Comma then Some (ObjKey kvs st)
      else None)"
| "step t (Finished v) = None"

fun run :: "token list \<Rightarrow> pstate \<Rightarrow> pstate option" where
  "run [] s = Some s"
| "run (t # ts) s = (case step t s of None \<Rightarrow> None | Some s' \<Rightarrow> run ts s')"

definition JSON_parse :: "jsstring \<Rightarrow> error + jsvalue" where
  "JSON_parse text =
     (case tokenize text of
        None \<Rightarrow> Inl SyntaxError
      | Some ts \<Rightarrow>
          (case run ts (NeedValue []) of
             Some (Finished v) \<Rightarrow> Inr v
           | _ \<Rightarrow> Inl SyntaxError))"

section \<open>The cache: \<open>gpsCache.ts\<close>\<close>

text \<open>
  The storage module is an optional dependency: \<open>require\<close> either gives the module or
  throws. The module's two operations return promises; a promise that rejects is the
  result \<open>Inl Rejected\<close>. The world is what \<open>require\<close> resolves to and the items the
  store holds. Calls are run one after the other, each to its end.
\<close>

record AsyncStorageLike =
  getItem_rejects :: bool
  setItem_rejects :: bool

record world =
  asyncStorageModule :: "AsyncStorageLike option"
  items :: "jsstring \<rightharpoonup> jsstring"

definition getItem :: "AsyncStorageLike \<Rightarrow> jsstring \<Rightarrow> world \<Rightarrow> error + jsstring option" where
  "getItem asyncStorage key w =
     (if getItem_rejects asyncStorage then Inl Rejected else Inr (items w key))"

definition setItem :: "AsyncStorageLike \<Rightarrow> jsstring \<Rightarrow> jsstring \<Rightarrow> world \<Rightarrow> (error + unit) \<times> world" where
  "setItem asyncStorage key val w =
     (if setItem_rejects asyncStorage then (Inl Rejected, w)
      else (Inr (), w\<lparr>items := (items w)(key \<mapsto> val)\<rparr>))"

record GPSDataPoint =
  latitude :: jsnum
  longitude :: jsnum
  altitude :: "jsnum option"
  accuracy :: "jsnum option"
  timestamp :: jsnum

text \<open>A point as the object it is: its five properties, in the order of the source.\<close>

definition nullable :: "jsnum option \<Rightarrow> jsvalue" where
  "nullable x = (case x of None \<Rightarrow> JNull | Some n \<Rightarrow> JNum n)"

definition point_object :: "GPSDataPoint \<Rightarrow> jsvalue" where
  "point_object p =
     JObj [(js ''latitude'', JNum (latitude p)),
           (js ''longitude'', JNum (longitude p)),
           (js ''altitude'', nullable (altitude p)),
           (js ''accuracy'', nullable (accuracy p)),
           (js ''timestamp'', JNum (timestamp p))]"

definition GPS_CACHE_KEY :: jsstring where
  "GPS_CACHE_KEY = js ''gps_cache_v1''"

definition MAX_CACHE_ITEMS :: nat where
  "MAX_CACHE_ITEMS = 120"

definition getAsyncStorage :: "world \<Rightarrow> AsyncStorageLike option" where
  "getAsyncStorage w = asyncStorageModule w"

definition isStorageReady :: "world \<Rightarrow> bool" where
  "isStorageReady w = (getAsyncStorage w \<noteq> None)"

fun elements :: "jsvalue \<Rightarrow> jsvalue list" where
  "elements (JArr vs) = vs"
| "elements v = []"

text \<open>
  \<open>getCachedGPSData\<close>: \<open>!raw\<close> holds of \<open>null\<close> and of the empty string; the \<open>try\<close>
  is around \<open>JSON.parse\<close> and the array test only, the \<open>await\<close> of \<open>getItem\<close> is
  before it. The cast of the parsed value to \<open>GPSDataPoint[]\<close> checks nothing, so the
  result is a list of values.
\<close>

definition getCachedGPSData :: "world \<Rightarrow> error + jsvalue list" where
  "getCachedGPSData w =
     (case getAsyncStorage w of
        None \<Rightarrow> Inr []
      | Some asyncStorage \<Rightarrow>
          (case getItem asyncStorage GPS_CACHE_KEY w of
             Inl e \<Rightarrow> Inl e
           | Inr None \<Rightarrow> Inr []
           | Inr (Some raw) \<Rightarrow>
               if raw = [] then Inr []
               else
                 (case JSON_parse raw of
                    Inl e \<Rightarrow> Inr []
                  | Inr parsed \<Rightarrow> if \<not> Array_isArray parsed then Inr [] else Inr (elements parsed))))"

definition appendGPSData :: "GPSDataPoint \<Rightarrow> world \<Rightarrow> (error + jsvalue list) \<times> world" where
  "appendGPSData point w =
     (case getAsyncStorage w of
        None \<Rightarrow> (Inr [], w)
      | Some asyncStorage \<Rightarrow>
          (case getCachedGPSData w of
             Inl e \<Rightarrow> (Inl e, w)
           | Inr existing \<Rightarrow>
               (let next = take MAX_CACHE_ITEMS (point_object point # existing) in
                case setItem asyncStorage GPS_CACHE_KEY (JSON_stringify (JArr next)) w of
                  (Inl e, w') \<Rightarrow> (Inl e, w')
                | (Inr u, w') \<Rightarrow> (Inr next, w'))))"

text \<open>Calls of \<open>appendGPSData\<close> for the points of a list, the first one first.\<close>

fun appends :: "GPSDataPoint list \<Rightarrow> world \<Rightarrow> world" where
  "appends [] w = w"
| "appends (p # ps) w = appends ps (snd (appendGPSData p w))"

section \<open>The live screen: the throttle of \<open>GPSLiveDataScreen\<close>\<close>

text \<open>
  The state of the screen that the position callback reads and writes; the reference
  \<open>lastCachedAtRef\<close> starts at 0. \<open>Date.now()\<close> is a whole number of milliseconds, an
  \<open>int\<close> here. The callback of \<open>watchPosition\<close> takes the position and the reading of
  the clock; the promise of \<open>appendGPSData\<close> is run to its end before the next
  position. Beside the new state, the model returns the samples the callback handed to
  \<open>appendGPSData\<close>: none or one. The permission flags and the watch id of the screen
  are left out: the callback neither reads nor writes them.
\<close>

datatype GPSCoords = GPSCoords jsnum jsnum "jsnum option" "jsnum option"

datatype GPSPosition = GPSPosition GPSCoords jsnum

record GPSLiveDataScreen =
  gpsData :: "GPSDataPoint option"
  errorMessage :: "string option"
  storageMessage :: "string option"
  lastCachedAtRef :: int

definition mounted :: GPSLiveDataScreen where
  "mounted = \<lparr>gpsData = None, errorMessage = None, storageMessage = None, lastCachedAtRef = 0\<rparr>"

fun sample_of :: "GPSPosition \<Rightarrow> GPSDataPoint" where
  "sample_of (GPSPosition (GPSCoords la lo al ac) ts) =
     \<lparr>latitude = la, longitude = lo, altitude = al, accuracy = ac, timestamp = ts\<rparr>"

definition onPosition ::
  "GPSPosition \<Rightarrow> int \<Rightarrow> GPSLiveDataScreen \<times> world \<Rightarrow> (GPSLiveDataScreen \<times> world) \<times> GPSDataPoint list" where
  "onPosition position now sw =
     (case sw of (s, w) \<Rightarrow>
        (let sample = sample_of position;
             s1 = s\<lparr>errorMessage := None, gpsData := Some sample\<rparr>
         in if now - lastCachedAtRef s1 \<ge> 5000 then
              (let s2 = s1\<lparr>lastCachedAtRef := now\<rparr> in
               case appendGPSData sample w of
                 (Inl e, w') \<Rightarrow> ((s2\<lparr>storageMessage := Some ''Failed to cache GPS sample.''\<rparr>, w'), [sample])
               | (Inr cached, w') \<Rightarrow> ((s2, w'), [sample]))
            else ((s1, w), [])))"

text \<open>The callback on a sequence of positions, each with the reading of the clock.\<close>

fun positions ::
  "(GPSPosition \<times> int) list \<Rightarrow> GPSLiveDataScreen \<times> world \<Rightarrow> (GPSLiveDataScreen \<times> world) \<times> GPSDataPoint list" where
  "positions [] sw = (sw, [])"
| "positions ((position, now) # evs) sw =
     (case onPosition position now sw of
        (sw', admitted) \<Rightarrow> (case positions evs sw' of (sw'', later) \<Rightarrow> (sw'', admitted @ later)))"

section \<open>The home screen: the poll of \<open>HomeScreen\<close>\<close>

text \<open>
  \<open>load\<close> runs once when the screen is mounted and then every 5000 ms. Beside the new
  state it returns the rejection it ends with, if any: nothing catches it. The field
  \<open>homeStorageMessage\<close> is the \<open>storageMessage\<close> of this screen.
\<close>

record HomeScreen =
  cachedData :: "jsvalue list"
  homeStorageMessage :: "string option"

definition load :: "world \<Rightarrow> HomeScreen \<Rightarrow> HomeScreen \<times> error option" where
  "load w h =
     (if \<not> isStorageReady w then
        (h\<lparr>homeStorageMessage :=
             Some ''Storage module missing. Run: npm i @react-native-async-storage/async-storage''\<rparr>,
         None)
      else
        (let h1 = h\<lparr>homeStorageMessage := None\<rparr> in
         case getCachedGPSData w of
           Inl e \<Rightarrow> (h1, Some e)
         | Inr data \<Rightarrow> (h1\<lparr>cachedData := data\<rparr>, None)))"

section \<open>Reading back what \<open>JSON.stringify\<close> wrote\<close>

subsection \<open>Numbers\<close>

text \<open>
  A number's text is read to its end when what follows does not continue a number:
  \<open>stops\<close> says that no digit follows, \<open>ends\<close> that neither a digit nor a point nor an
  exponent does.
\<close>

lemma is_digit_digit_char [simp]: "is_digit (digit_char d)"
  by (cases d) (simp_all add: is_digit_def)

lemma digit_val_digit_char [simp]: "digit_val (digit_char d) = d"
  by (cases d) (simp_all add: digit_val_def digit_of_nat_def)

lemma digit_char_neq [simp]:
  "digit_char d \<noteq> 0x2E" "digit_char d \<noteq> 0x65" "digit_char d \<noteq> 0x45"
  "digit_char d \<noteq> 0x2D" "digit_char d \<noteq> 0x2B"
  by (cases d; simp)+

definition stops :: "jsstring \<Rightarrow> bool" where
  "stops rest = (case rest of [] \<Rightarrow> True | c # cs \<Rightarrow> \<not> is_digit c)"

definition ends :: "jsstring \<Rightarrow> bool" where
  "ends rest = (case rest of [] \<Rightarrow> True | c # cs \<Rightarrow> \<not> is_digit c \<and> c \<noteq> 0x2E \<and> c \<noteq> 0x65 \<and> c \<noteq> 0x45)"

lemma ends_stops: "ends rest \<Longrightarrow> stops rest"
  by (auto simp: ends_def stops_def split: list.splits)

lemma stops_simps [simp]: "stops []" "stops (0x2E # cs)" "stops (0x65 # cs)"
  by (simp_all add: stops_def is_digit_def)

lemma lex_digits_chars: "stops rest \<Longrightarrow> lex_digits (map digit_char ds @ rest) = (ds, rest)"
  by (induction ds) (auto simp: lex_digits_def stops_def split: list.splits)

lemma lex_fraction_none: "ends rest \<Longrightarrow> lex_fraction rest = Some ([], rest)"
  by (auto simp: lex_fraction_def ends_def split: list.splits)

lemma lex_fraction_e: "lex_fraction (0x65 # cs) = Some ([], 0x65 # cs)"
  by (simp add: lex_fraction_def)

lemma lex_fraction_some:
  "ds \<noteq> [] \<Longrightarrow> stops rest \<Longrightarrow> lex_fraction (0x2E # map digit_char ds @ rest) = Some (ds, rest)"
  by (simp add: lex_fraction_def lex_digits_chars)

lemma lex_exponent_none: "ends rest \<Longrightarrow> lex_exponent rest = Some (0, rest)"
  by (auto simp: lex_exponent_def ends_def split: list.splits)

lemma digit_of_nat_inverse: "n < 10 \<Longrightarrow> nat_of_digit (digit_of_nat n) = n"
proof -
  assume "n < 10"
  then have "n \<in> {0, 1, 2, 3, 4, 5, 6, 7, 8, 9}" by auto
  then show ?thesis by (auto simp: digit_of_nat_def)
qed

lemma nat_of_digits_snoc: "nat_of_digits (ds @ [d]) = 10 * nat_of_digits ds + nat_of_digit d"
  by (simp add: nat_of_digits_def)

lemma nat_of_digits_digits_of: "nat_of_digits (digits_of n) = n"
proof (induction n rule: digits_of.induct)
  case (1 n)
  show ?case
  proof (cases "n < 10")
    case True
    then show ?thesis
      by (subst digits_of.simps) (simp add: nat_of_digits_def digit_of_nat_inverse)
  next
    case False
    have "digit_of_nat n = digit_of_nat (n mod 10)" by (simp add: digit_of_nat_def)
    then have "nat_of_digit (digit_of_nat n) = n mod 10"
      by (simp add: digit_of_nat_inverse)
    with False 1 show ?thesis
      by (subst digits_of.simps) (simp add: nat_of_digits_snoc)
  qed
qed

lemma digits_of_nonempty: "digits_of n \<noteq> []"
  by (subst digits_of.simps) simp

lemma lex_exponent_text:
  assumes "stops rest"
  shows "lex_exponent (exponent_text e @ rest) = Some (e, rest)"
proof -
  let ?ds = "digits_of (nat \<bar>e\<bar>)"
  have sign: "lex_exponent_sign ((if e < 0 then 0x2D else 0x2B) # map digit_char ?ds @ rest)
      = (e < 0, map digit_char ?ds @ rest)"
    by (simp add: lex_exponent_sign_def)
  have "(if e < 0 then - int (nat_of_digits ?ds) else int (nat_of_digits ?ds)) = e"
    by (simp add: nat_of_digits_digits_of)
  with sign assms show ?thesis
    by (simp add: lex_exponent_def exponent_text_def lex_digits_chars digits_of_nonempty
        )
qed


lemma digit_of_nz_neq [simp]: "digit_of_nz a \<noteq> D0"
  by (cases a) simp_all

lemma nonzero_digit_of_nz [simp]: "nonzero (digit_of_nz a) = Some a"
  by (cases a) simp_all

lemma digits_nonempty [simp]: "digits m \<noteq> []"
  by (cases m) simp_all

lemma hd_digits [simp]: "hd (digits m) \<noteq> D0"
  by (cases m) simp_all

lemma last_digits [simp]: "last (digits m) \<noteq> D0"
  by (cases m) simp_all

lemma dropWhile_zeros_digits [simp]:
  "dropWhile (\<lambda>d. d = D0) (replicate i D0 @ digits m @ ds) = digits m @ ds"
  by (induction i) (simp_all, cases m, simp_all)

lemma takeWhile_zeros_digits [simp]:
  "takeWhile (\<lambda>d. d = D0) (replicate i D0 @ digits m @ ds) = replicate i D0"
  by (induction i) (simp_all, cases m, simp_all)

lemma strip_trailing_zeros:
  "rev (dropWhile (\<lambda>d. d = D0) (rev (digits m @ replicate j D0))) = digits m"
proof -
  have "dropWhile (\<lambda>d. d = D0) (replicate j D0 @ rev (digits m)) = rev (digits m)"
    by (induction j) (simp_all, cases m, simp_all)
  then show ?thesis by simp
qed

lemma mantissa_of_digits [simp]: "mantissa_of (digits m @ replicate j D0) = Some m"
proof (cases m)
  case (One a)
  then have "digits m = [digit_of_nz a]" by simp
  with One show ?thesis
    unfolding mantissa_of_def strip_trailing_zeros by simp
next
  case (Many a ds b)
  show ?thesis
  proof (cases ds)
    case Nil
    with Many have "digits m = [digit_of_nz a, digit_of_nz b]" by simp
    with Many Nil show ?thesis
      unfolding mantissa_of_def strip_trailing_zeros by simp
  next
    case (Cons d ds')
    with Many have "digits m = digit_of_nz a # d # (ds' @ [digit_of_nz b])" by simp
    with Many Cons show ?thesis
      unfolding mantissa_of_def strip_trailing_zeros by (simp add: butlast_append)
  qed
qed

lemma decimal_canonical:
  assumes "ip @ fp = replicate i D0 @ digits m @ replicate j D0"
  shows "decimal neg ip fp e = Dec neg m (int (length ip) + e - int i)"
  using assms by (simp add: decimal_def)

lemma lex_unsigned_positive_text:
  assumes "ends rest"
  shows "lex_unsigned neg (positive_text m n @ rest) = Some (Dec neg m n, rest)"
proof -
  let ?ds = "digits m"
  let ?k = "int (length ?ds)"
  from assms have st: "stops rest" by (rule ends_stops)
  have kpos: "0 < ?k" by simp
  have frac: "lex_fraction rest = Some ([], rest)" using assms by (rule lex_fraction_none)
  have expo: "lex_exponent rest = Some (0, rest)" using assms by (rule lex_exponent_none)
  consider (whole) "?k \<le> n" "n \<le> 21"
    | (point) "0 < n" "n < ?k" "n \<le> 21"
    | (small) "-6 < n" "n \<le> 0"
    | (exp1) "\<not> (?k \<le> n \<and> n \<le> 21)" "\<not> (0 < n \<and> n \<le> 21)" "\<not> (-6 < n \<and> n \<le> 0)" "tl ?ds = []"
    | (expk) "\<not> (?k \<le> n \<and> n \<le> 21)" "\<not> (0 < n \<and> n \<le> 21)" "\<not> (-6 < n \<and> n \<le> 0)" "tl ?ds \<noteq> []"
    by linarith
  then show ?thesis
  proof cases
    case whole
    let ?j = "nat (n - ?k)"
    have shape: "positive_text m n @ rest = map digit_char (?ds @ replicate ?j D0) @ rest"
      using whole by (simp add: positive_text_def Let_def)
    have dec: "decimal neg (?ds @ replicate ?j D0) [] 0 = Dec neg m n"
      using decimal_canonical [of "?ds @ replicate ?j D0" "[]" 0 m ?j neg 0] whole by simp
    show ?thesis
      unfolding shape lex_unsigned_def
      by (simp only: lex_digits_chars [OF st]) (simp add: frac expo dec)
  next
    case point
    let ?ip = "take (nat n) ?ds" and ?fp = "drop (nat n) ?ds"
    have shape: "positive_text m n @ rest = map digit_char ?ip @ 0x2E # map digit_char ?fp @ rest"
      using point by (simp add: positive_text_def Let_def)
    have ip: "?ip \<noteq> []" "hd ?ip \<noteq> D0" using point by simp_all
    have fp: "?fp \<noteq> []" using point by simp
    have len: "int (length ?ip) = n" using point by simp
    have dec: "decimal neg ?ip ?fp 0 = Dec neg m n"
      using decimal_canonical [of ?ip ?fp 0 m 0 neg 0] len by simp
    have digs: "lex_digits (map digit_char ?ip @ 0x2E # map digit_char ?fp @ rest)
        = (?ip, 0x2E # map digit_char ?fp @ rest)"
      by (rule lex_digits_chars) simp
    show ?thesis
      unfolding shape lex_unsigned_def digs
      using ip by (simp add: lex_fraction_some [OF fp st] expo dec)
  next
    case small
    let ?j = "nat (- n)"
    let ?fp = "replicate ?j D0 @ ?ds"
    have shape: "positive_text m n @ rest = map digit_char [D0] @ 0x2E # map digit_char ?fp @ rest"
    proof -
      have "\<not> ?k \<le> n" using kpos small by linarith
      with small show ?thesis by (simp add: positive_text_def Let_def)
    qed
    have fp: "?fp \<noteq> []" by simp
    have "decimal neg [D0] ?fp 0 = Dec neg m (int (length [D0]) + 0 - int (Suc ?j))"
      by (rule decimal_canonical [where j = 0]) simp
    then have dec: "decimal neg [D0] ?fp 0 = Dec neg m n"
      using small by simp
    have digs: "lex_digits (map digit_char [D0] @ 0x2E # map digit_char ?fp @ rest)
        = ([D0], 0x2E # map digit_char ?fp @ rest)"
      by (rule lex_digits_chars) simp
    show ?thesis
      unfolding shape lex_unsigned_def digs
      by (simp add: lex_fraction_some [OF fp st] expo dec del: map_append)
  next
    case exp1
    then have one: "length ?ds = 1" by (cases m) simp_all
    have shape: "positive_text m n @ rest = map digit_char ?ds @ exponent_text (n - 1) @ rest"
      unfolding positive_text_def Let_def by (simp only: exp1 if_False if_True) simp
    have e: "exponent_text (n - 1) @ rest = 0x65 # tl (exponent_text (n - 1) @ rest)"
      by (simp add: exponent_text_def)
    have digs: "lex_digits (map digit_char ?ds @ exponent_text (n - 1) @ rest)
        = (?ds, exponent_text (n - 1) @ rest)"
      by (rule lex_digits_chars) (subst e, simp)
    have frac': "lex_fraction (exponent_text (n - 1) @ rest) = Some ([], exponent_text (n - 1) @ rest)"
      by (subst (1 2) e) (rule lex_fraction_e)
    have dec: "decimal neg ?ds [] (n - 1) = Dec neg m n"
      using decimal_canonical [of ?ds "[]" 0 m 0 neg "n - 1"] one by simp
    show ?thesis
      unfolding shape lex_unsigned_def digs
      using exp1 by (simp add: frac' lex_exponent_text [OF st] dec)
  next
    case expk
    let ?ip = "[hd ?ds]" and ?fp = "tl ?ds"
    have shape: "positive_text m n @ rest
        = map digit_char ?ip @ 0x2E # map digit_char ?fp @ exponent_text (n - 1) @ rest"
      unfolding positive_text_def Let_def by (simp only: expk if_False if_True) simp
    have e: "exponent_text (n - 1) @ rest = 0x65 # tl (exponent_text (n - 1) @ rest)"
      by (simp add: exponent_text_def)
    have digs: "lex_digits (map digit_char ?ip @ 0x2E # map digit_char ?fp @ exponent_text (n - 1) @ rest)
        = (?ip, 0x2E # map digit_char ?fp @ exponent_text (n - 1) @ rest)"
      by (rule lex_digits_chars) simp
    have st': "stops (exponent_text (n - 1) @ rest)"
      by (subst e) simp
    have frac': "lex_fraction (0x2E # map digit_char ?fp @ exponent_text (n - 1) @ rest)
        = Some (?fp, exponent_text (n - 1) @ rest)"
      using expk(4) st' by (rule lex_fraction_some)
    have dec: "decimal neg ?ip ?fp (n - 1) = Dec neg m n"
      using decimal_canonical [of ?ip ?fp 0 m 0 neg "n - 1"] by simp
    show ?thesis
      unfolding shape lex_unsigned_def digs
      by (simp add: frac' lex_exponent_text [OF st] dec)
  qed
qed

subsection \<open>Tokens\<close>

text \<open>
  What a number is once it was written and read: \<open>NaN\<close> and the infinities were
  written \<open>null\<close>, both zeros were written \<open>0\<close>, every other number is itself.
\<close>

definition reread :: "jsnum \<Rightarrow> jsnum option" where
  "reread x =
     (case x of
        NaN \<Rightarrow> None
      | PosInfinity \<Rightarrow> None
      | NegInfinity \<Rightarrow> None
      | Zero neg \<Rightarrow> Some (Zero False)
      | Dec neg m n \<Rightarrow> Some (Dec neg m n))"

definition nullable_token :: "jsnum option \<Rightarrow> token" where
  "nullable_token x = (case x of None \<Rightarrow> TNull | Some n \<Rightarrow> TNum n)"

lemma positive_text_head: "\<exists>d t. positive_text m n = digit_char d # t"
proof -
  obtain a ds where ds: "digits m = a # ds" by (cases "digits m") simp_all
  have zero: "(0x30 :: jschar) = digit_char D0" by simp
  show ?thesis
    unfolding positive_text_def Let_def ds
    by (cases "nat n") (auto simp only: zero list.map list.sel append_Cons take_Suc_Cons take_0
        split: if_splits)
qed

lemma lex_token_digit:
  assumes "is_digit c"
  shows "lex_token (c # cs) = map_option (\<lambda>(x, rest). (TNum x, rest)) (lex_unsigned False (c # cs))"
proof -
  from assms have "c \<noteq> 0x5B" "c \<noteq> 0x5D" "c \<noteq> 0x7B" "c \<noteq> 0x7D" "c \<noteq> 0x3A" "c \<noteq> 0x2C"
    "c \<noteq> 0x22" "c \<noteq> 0x2D"
    by (auto simp: is_digit_def)
  with assms show ?thesis by (simp add: lex_number_def lex_sign_def)
qed

lemma lex_token_number:
  assumes "ends rest"
  shows "lex_token (Number_toString (Dec neg m n) @ rest) = Some (TNum (Dec neg m n), rest)"
proof (cases neg)
  case True
  then show ?thesis
    by (simp add: lex_number_def lex_sign_def lex_unsigned_positive_text [OF assms])
next
  case False
  obtain d t where dt: "positive_text m n = digit_char d # t"
    using positive_text_head by blast
  have "lex_token (digit_char d # t @ rest)
      = map_option (\<lambda>(x, rest). (TNum x, rest)) (lex_unsigned False (digit_char d # t @ rest))"
    by (rule lex_token_digit) simp
  also have "digit_char d # t @ rest = positive_text m n @ rest" by (simp add: dt)
  finally show ?thesis
    using False by (simp add: lex_unsigned_positive_text [OF assms])
qed

lemma lex_token_zero:
  assumes "ends rest"
  shows "lex_token (0x30 # rest) = Some (TNum (Zero False), rest)"
proof -
  have digs: "lex_digits (map digit_char [D0] @ rest) = ([D0], rest)"
    using assms by (intro lex_digits_chars ends_stops)
  have "lex_unsigned False (0x30 # rest) = Some (Zero False, rest)"
    using digs assms
    by (simp add: lex_unsigned_def lex_fraction_none lex_exponent_none decimal_def mantissa_of_def)
  moreover have "is_digit 0x30" by (simp add: is_digit_def)
  ultimately show ?thesis by (simp only: lex_token_digit) simp
qed

lemma lex_token_null: "lex_token (js ''null'' @ rest) = Some (TNull, rest)"
  by (simp add: js_def lex_literal_def is_digit_def)

lemma lex_token_nullable:
  assumes "ends rest"
  shows "lex_token (JSON_stringify (nullable x) @ rest)
      = Some (nullable_token (Option.bind x reread), rest)"
proof (cases x)
  case None
  then show ?thesis by (simp add: nullable_def nullable_token_def lex_token_null)
next
  case (Some y)
  show ?thesis
  proof (cases y)
    case (Zero neg)
    have "JSON_stringify (nullable x) @ rest = 0x30 # rest"
      by (simp add: Some Zero nullable_def is_finite_def js_def)
    moreover have "nullable_token (Option.bind x reread) = TNum (Zero False)"
      by (simp add: Some Zero nullable_token_def reread_def)
    ultimately show ?thesis by (simp only: lex_token_zero [OF assms])
  next
    case (Dec neg m n)
    have "JSON_stringify (nullable x) @ rest = Number_toString (Dec neg m n) @ rest"
      by (simp add: Some Dec nullable_def is_finite_def)
    moreover have "nullable_token (Option.bind x reread) = TNum (Dec neg m n)"
      by (simp add: Some Dec nullable_token_def reread_def)
    ultimately show ?thesis by (simp only: lex_token_number [OF assms])
  next
    case NaN
    have "JSON_stringify (nullable x) @ rest = js ''null'' @ rest"
      by (simp add: Some NaN nullable_def is_finite_def)
    moreover have "nullable_token (Option.bind x reread) = TNull"
      by (simp add: Some NaN nullable_token_def reread_def)
    ultimately show ?thesis by (simp only: lex_token_null)
  next
    case PosInfinity
    have "JSON_stringify (nullable x) @ rest = js ''null'' @ rest"
      by (simp add: Some PosInfinity nullable_def is_finite_def)
    moreover have "nullable_token (Option.bind x reread) = TNull"
      by (simp add: Some PosInfinity nullable_token_def reread_def)
    ultimately show ?thesis by (simp only: lex_token_null)
  next
    case NegInfinity
    have "JSON_stringify (nullable x) @ rest = js ''null'' @ rest"
      by (simp add: Some NegInfinity nullable_def is_finite_def)
    moreover have "nullable_token (Option.bind x reread) = TNull"
      by (simp add: Some NegInfinity nullable_token_def reread_def)
    ultimately show ?thesis by (simp only: lex_token_null)
  qed
qed

lemma lex_token_space: "is_ws c \<Longrightarrow> lex_token (c # cs) = None"
proof -
  assume "is_ws c"
  then consider "c = 0x20" | "c = 0x09" | "c = 0x0A" | "c = 0x0D"
    by (auto simp: is_ws_def)
  then show ?thesis
    by cases (simp_all add: is_digit_def lex_literal_def js_def)
qed

lemma lex_token_no_space:
  assumes "lex_token s = Some (t, rest)"
  shows "dropWhile is_ws s = s"
proof (cases s)
  case Nil
  then show ?thesis by simp
next
  case (Cons c cs)
  with assms have "\<not> is_ws c"
    using lex_token_space [of c cs] by auto
  with Cons show ?thesis by simp
qed

lemma tokenize_token:
  assumes "lex_token s = Some (t, rest)"
  shows "tokenize s = map_option (Cons t) (tokenize rest)"
proof -
  from assms obtain c cs where s: "s = c # cs" by (cases s) auto
  have "dropWhile is_ws s = c # cs" using lex_token_no_space [OF assms] s by simp
  then show ?thesis
    using assms s by (subst tokenize.simps) simp
qed

subsection \<open>Property names\<close>

text \<open>
  A string is \<open>plain\<close> when \<open>QuoteJSONString\<close> writes every code unit of it as it is;
  the five property names of a point are.
\<close>

definition plain :: "jsstring \<Rightarrow> bool" where
  "plain s = list_all (\<lambda>c. 0x20 \<le> c \<and> c \<noteq> 0x22 \<and> c \<noteq> 0x5C \<and> c < 0xD800) s"

lemma plain_Cons: "plain (c # cs) = ((0x20 \<le> c \<and> c \<noteq> 0x22 \<and> c \<noteq> 0x5C \<and> c < 0xD800) \<and> plain cs)"
  by (simp add: plain_def)

lemma plain_unit:
  assumes "0x20 \<le> c" "c \<noteq> 0x22" "c \<noteq> 0x5C" "c < 0xD800"
  shows "quote_unit c = [c]" "\<not> is_leading_surrogate c" "\<not> is_trailing_surrogate c" "\<not> c < 0x20"
proof -
  from assms(1) have "c \<noteq> 0x08" "c \<noteq> 0x09" "c \<noteq> 0x0A" "c \<noteq> 0x0C" "c \<noteq> 0x0D"
    by auto
  moreover from assms(1) show "\<not> c < 0x20" by simp
  ultimately show "quote_unit c = [c]" using assms by (simp add: quote_unit_def)
  from assms(4) show "\<not> is_leading_surrogate c" "\<not> is_trailing_surrogate c"
    by (auto simp: is_leading_surrogate_def is_trailing_surrogate_def word_le_nat_alt
        word_less_nat_alt)
qed

lemma quote_units_plain: "plain s \<Longrightarrow> quote_units s = s"
  by (induction s rule: quote_units.induct) (simp_all add: plain_Cons plain_unit)

lemma lex_string_plain: "plain s \<Longrightarrow> lex_string (s @ 0x22 # rest) = Some (s, rest)"
  by (induction s) (simp_all add: plain_Cons plain_unit push_unit_def)

lemma lex_token_key:
  "plain s \<Longrightarrow> lex_token (QuoteJSONString s @ rest) = Some (TStr s, rest)"
  by (simp add: QuoteJSONString_def quote_units_plain lex_string_plain)

lemma plain_keys:
  "plain (js ''latitude'')" "plain (js ''longitude'')" "plain (js ''altitude'')"
  "plain (js ''accuracy'')" "plain (js ''timestamp'')"
  by (simp_all add: plain_def js_def)

lemma tokenize_punctuation:
  "tokenize (0x5B # s) = map_option (Cons LBracket) (tokenize s)"
  "tokenize (0x5D # s) = map_option (Cons RBracket) (tokenize s)"
  "tokenize (0x7B # s) = map_option (Cons LBrace) (tokenize s)"
  "tokenize (0x7D # s) = map_option (Cons RBrace) (tokenize s)"
  "tokenize (0x3A # s) = map_option (Cons Colon) (tokenize s)"
  "tokenize (0x2C # s) = map_option (Cons Comma) (tokenize s)"
  by (rule tokenize_token, simp)+

lemma tokenize_Nil: "tokenize [] = Some []"
  by (subst tokenize.simps) simp

lemma tokenize_key:
  "plain k \<Longrightarrow> tokenize (QuoteJSONString k @ s) = map_option (Cons (TStr k)) (tokenize s)"
  by (rule tokenize_token) (rule lex_token_key)

lemma tokenize_nullable:
  "ends s \<Longrightarrow> tokenize (JSON_stringify (nullable x) @ s)
     = map_option (Cons (nullable_token (Option.bind x reread))) (tokenize s)"
  by (rule tokenize_token) (rule lex_token_nullable)

lemma ends_punctuation: "ends (0x2C # s)" "ends (0x7D # s)" "ends (0x5D # s)"
  by (simp_all add: ends_def is_digit_def)

subsection \<open>Objects with the five properties of a point\<close>

text \<open>
  A \<open>row\<close> is the five values of such an object, each a number or \<open>null\<close>;
  \<open>reread_row\<close> is the row once it was written and read.
\<close>

datatype row = Row "jsnum option" "jsnum option" "jsnum option" "jsnum option" "jsnum option"

fun row_object :: "row \<Rightarrow> jsvalue" where
  "row_object (Row a b c d e) =
     JObj [(js ''latitude'', nullable a), (js ''longitude'', nullable b),
           (js ''altitude'', nullable c), (js ''accuracy'', nullable d),
           (js ''timestamp'', nullable e)]"

fun reread_row :: "row \<Rightarrow> row" where
  "reread_row (Row a b c d e) =
     Row (Option.bind a reread) (Option.bind b reread) (Option.bind c reread)
         (Option.bind d reread) (Option.bind e reread)"

fun row_tokens :: "row \<Rightarrow> token list" where
  "row_tokens (Row a b c d e) =
     [LBrace, TStr (js ''latitude''), Colon, nullable_token a, Comma,
      TStr (js ''longitude''), Colon, nullable_token b, Comma,
      TStr (js ''altitude''), Colon, nullable_token c, Comma,
      TStr (js ''accuracy''), Colon, nullable_token d, Comma,
      TStr (js ''timestamp''), Colon, nullable_token e, RBrace]"

definition row_of :: "GPSDataPoint \<Rightarrow> row" where
  "row_of p = Row (Some (latitude p)) (Some (longitude p)) (altitude p) (accuracy p) (Some (timestamp p))"

lemma point_object_row: "point_object p = row_object (row_of p)"
  by (simp add: point_object_def row_of_def nullable_def)

lemma tokenize_row:
  "tokenize (JSON_stringify (row_object r) @ s)
     = map_option (\<lambda>ts. row_tokens (reread_row r) @ ts) (tokenize s)"
proof (cases r)
  case (Row a b c d e)
  have shape: "JSON_stringify (row_object r) @ s =
      0x7B # QuoteJSONString (js ''latitude'') @ 0x3A # JSON_stringify (nullable a) @
      0x2C # QuoteJSONString (js ''longitude'') @ 0x3A # JSON_stringify (nullable b) @
      0x2C # QuoteJSONString (js ''altitude'') @ 0x3A # JSON_stringify (nullable c) @
      0x2C # QuoteJSONString (js ''accuracy'') @ 0x3A # JSON_stringify (nullable d) @
      0x2C # QuoteJSONString (js ''timestamp'') @ 0x3A # JSON_stringify (nullable e) @
      0x7D # s"
    by (simp add: Row)
  show ?thesis
    unfolding shape
    by (simp add: Row tokenize_punctuation tokenize_key tokenize_nullable plain_keys
        ends_punctuation option.map_comp comp_def)
qed

lemma array_index_keys:
  "array_index (js ''latitude'') = None" "array_index (js ''longitude'') = None"
  "array_index (js ''altitude'') = None" "array_index (js ''accuracy'') = None"
  "array_index (js ''timestamp'') = None"
  by (simp_all add: array_index_def js_def is_digit_def)

lemma obj_put_new:
  "k \<notin> fst ` set kvs \<Longrightarrow> array_index k = None \<Longrightarrow> obj_put k v kvs = kvs @ [(k, v)]"
  by (simp add: obj_put_def)

lemma open_value_nullable: "open_value (nullable_token x) st = Some (deliver (nullable x) st)"
  by (cases x) (simp_all add: nullable_token_def nullable_def)

lemma keys_distinct:
  "js ''longitude'' \<noteq> js ''latitude''"
  "js ''altitude'' \<noteq> js ''latitude''" "js ''altitude'' \<noteq> js ''longitude''"
  "js ''accuracy'' \<noteq> js ''latitude''" "js ''accuracy'' \<noteq> js ''longitude''"
  "js ''accuracy'' \<noteq> js ''altitude''"
  "js ''timestamp'' \<noteq> js ''latitude''" "js ''timestamp'' \<noteq> js ''longitude''"
  "js ''timestamp'' \<noteq> js ''altitude''" "js ''timestamp'' \<noteq> js ''accuracy''"
  by (simp_all add: js_def)

lemma run_row:
  "run (row_tokens r @ ts) (NeedValue st) = run ts (deliver (row_object r) st)"
proof (cases r)
  case (Row a b c d e)
  show ?thesis
    unfolding Row row_tokens.simps row_object.simps
    by (simp add: open_value_nullable obj_put_new array_index_keys keys_distinct)
qed

lemma run_first_row:
  "run (row_tokens r @ ts) (ArrOpen st) = run ts (ArrNext [row_object r] st)"
proof -
  have "run (row_tokens r @ ts) (ArrOpen st) = run (row_tokens r @ ts) (NeedValue (InArr [] # st))"
    by (cases r) simp
  then show ?thesis by (simp add: run_row del: row_object.simps)
qed

lemma run_more_rows:
  "run (concat (map (\<lambda>r. Comma # row_tokens r) rs) @ ts) (ArrNext vs st)
     = run ts (ArrNext (vs @ map row_object rs) st)"
proof (induction rs arbitrary: vs)
  case Nil
  show ?case by simp
next
  case (Cons r rs)
  have "run (concat (map (\<lambda>r. Comma # row_tokens r) (r # rs)) @ ts) (ArrNext vs st)
      = run (row_tokens r @ concat (map (\<lambda>r. Comma # row_tokens r) rs) @ ts)
          (NeedValue (InArr vs # st))"
    by simp
  also have "\<dots> = run (concat (map (\<lambda>r. Comma # row_tokens r) rs) @ ts)
      (ArrNext (vs @ [row_object r]) st)"
    by (simp add: run_row del: row_object.simps)
  also have "\<dots> = run ts (ArrNext ((vs @ [row_object r]) @ map row_object rs) st)"
    by (rule Cons.IH)
  finally show ?case by simp
qed

lemma join_Cons: "join (x # xs) = x @ concat (map (\<lambda>y. 0x2C # y) xs)"
  by (induction xs arbitrary: x) simp_all

lemma tokenize_more_rows:
  "tokenize (concat (map (\<lambda>r. 0x2C # JSON_stringify (row_object r)) rs) @ s)
     = map_option (\<lambda>ts. concat (map (\<lambda>r. Comma # row_tokens (reread_row r)) rs) @ ts) (tokenize s)"
proof (induction rs)
  case Nil
  show ?case by (simp add: option.map_ident)
next
  case (Cons r rs)
  show ?case
    by (simp add: tokenize_punctuation tokenize_row Cons.IH option.map_comp comp_def
        del: row_object.simps row_tokens.simps reread_row.simps)
qed

lemma parse_stringify_rows:
  "JSON_parse (JSON_stringify (JArr (map row_object rs)))
     = Inr (JArr (map (\<lambda>r. row_object (reread_row r)) rs))"
proof (cases rs)
  case Nil
  have "tokenize (JSON_stringify (JArr [])) = Some [LBracket, RBracket]"
    by (simp add: tokenize_punctuation tokenize_Nil)
  then show ?thesis by (simp add: Nil JSON_parse_def)
next
  case (Cons r rs')
  let ?tail = "concat (map (\<lambda>r. Comma # row_tokens (reread_row r)) rs')"
  have shape: "JSON_stringify (JArr (map row_object rs))
      = 0x5B # JSON_stringify (row_object r)
          @ concat (map (\<lambda>r. 0x2C # JSON_stringify (row_object r)) rs') @ [0x5D]"
    by (simp add: Cons join_Cons comp_def del: row_object.simps)
  have toks: "tokenize (JSON_stringify (JArr (map row_object rs)))
      = Some (LBracket # row_tokens (reread_row r) @ ?tail @ [RBracket])"
    unfolding shape
    by (simp add: tokenize_punctuation tokenize_row tokenize_more_rows tokenize_Nil
        del: row_object.simps row_tokens.simps reread_row.simps JSON_stringify.simps)
  have "run (LBracket # row_tokens (reread_row r) @ ?tail @ [RBracket]) (NeedValue [])
      = run (?tail @ [RBracket]) (ArrNext [row_object (reread_row r)] [])"
    by (simp add: run_first_row del: row_object.simps row_tokens.simps reread_row.simps)
  also have "\<dots> = run [RBracket]
      (ArrNext ([row_object (reread_row r)] @ map row_object (map reread_row rs')) [])"
    using run_more_rows [of "map reread_row rs'" "[RBracket]" "[row_object (reread_row r)]" "[]"]
    by (simp add: comp_def del: row_object.simps row_tokens.simps reread_row.simps)
  also have "\<dots> = Some (Finished (JArr (map (\<lambda>r. row_object (reread_row r)) rs)))"
    by (simp add: Cons comp_def del: row_object.simps reread_row.simps)
  finally have ran: "run (LBracket # row_tokens (reread_row r) @ ?tail @ [RBracket]) (NeedValue [])
      = Some (Finished (JArr (map (\<lambda>r. row_object (reread_row r)) rs)))" .
  show ?thesis
    by (simp only: JSON_parse_def toks ran option.case pstate.case)
qed

lemma parse_stringify_row:
  "JSON_parse (JSON_stringify (row_object r)) = Inr (row_object (reread_row r))"
proof -
  have "tokenize (JSON_stringify (row_object r) @ []) = Some (row_tokens (reread_row r))"
    by (simp only: tokenize_row tokenize_Nil) simp
  moreover have "run (row_tokens (reread_row r) @ []) (NeedValue [])
      = Some (Finished (row_object (reread_row r)))"
    by (simp only: run_row) simp
  ultimately show ?thesis
    by (simp add: JSON_parse_def del: row_object.simps row_tokens.simps reread_row.simps)
qed

lemma parse_empty: "JSON_parse [] = Inl SyntaxError"
  by (simp add: JSON_parse_def tokenize_Nil)

lemma reread_reread: "Option.bind (reread x) reread = reread x"
  by (cases x) (simp_all add: reread_def)

lemma reread_row_idem [simp]: "reread_row (reread_row r) = reread_row r"
  by (cases r) (simp add: reread_reread)

section \<open>The window in the store\<close>

text \<open>What the store holds under the key of the cache: nothing, or a window as text.\<close>

definition window_item :: "row list \<Rightarrow> jsstring option" where
  "window_item rs = (if rs = [] then None else Some (JSON_stringify (JArr (map row_object rs))))"

lemma read_window:
  assumes "asyncStorageModule w = Some a" and "\<not> getItem_rejects a"
    and "items w GPS_CACHE_KEY = Some (JSON_stringify (JArr (map row_object rs)))"
  shows "getCachedGPSData w = Inr (map (\<lambda>r. row_object (reread_row r)) rs)"
  using assms
  by (simp add: getCachedGPSData_def getAsyncStorage_def getItem_def parse_stringify_rows
      del: JSON_stringify.simps) simp

lemma read_window_item:
  assumes "asyncStorageModule w = Some a" and "\<not> getItem_rejects a"
    and "items w GPS_CACHE_KEY = window_item rs"
  shows "getCachedGPSData w = Inr (map (\<lambda>r. row_object (reread_row r)) rs)"
proof (cases "rs = []")
  case True
  with assms show ?thesis
    by (simp add: window_item_def getCachedGPSData_def getAsyncStorage_def getItem_def)
next
  case False
  with assms show ?thesis by (simp add: window_item_def read_window)
qed

lemma append_window:
  assumes "asyncStorageModule w = Some a" and "\<not> getItem_rejects a" and "\<not> setItem_rejects a"
    and "items w GPS_CACHE_KEY = window_item rs"
  shows "appendGPSData p w =
      (Inr (map row_object (take MAX_CACHE_ITEMS (row_of p # map reread_row rs))),
       w\<lparr>items := (items w)(GPS_CACHE_KEY \<mapsto>
          JSON_stringify (JArr (map row_object (take MAX_CACHE_ITEMS (row_of p # map reread_row rs)))))\<rparr>)"
proof -
  have "take MAX_CACHE_ITEMS (point_object p # map (\<lambda>r. row_object (reread_row r)) rs)
      = map row_object (take MAX_CACHE_ITEMS (row_of p # map reread_row rs))"
    by (simp add: take_map [symmetric] point_object_row comp_def
        del: row_object.simps reread_row.simps)
  then show ?thesis
    using assms read_window_item [OF assms(1,2,4)]
    by (simp add: appendGPSData_def getAsyncStorage_def setItem_def Let_def
        del: JSON_stringify.simps row_object.simps reread_row.simps)
qed

fun window_after :: "GPSDataPoint list \<Rightarrow> row list \<Rightarrow> row list" where
  "window_after [] rs = rs"
| "window_after (p # ps) rs = window_after ps (take MAX_CACHE_ITEMS (row_of p # map reread_row rs))"

lemma appends_window:
  assumes "asyncStorageModule w = Some a" and "\<not> getItem_rejects a" and "\<not> setItem_rejects a"
    and "items w GPS_CACHE_KEY = window_item rs"
  shows "asyncStorageModule (appends ps w) = Some a
       \<and> items (appends ps w) GPS_CACHE_KEY = window_item (window_after ps rs)"
  using assms
proof (induction ps arbitrary: w rs)
  case Nil
  then show ?case by simp
next
  case (Cons p ps)
  let ?rs = "take MAX_CACHE_ITEMS (row_of p # map reread_row rs)"
  let ?w = "snd (appendGPSData p w)"
  have step: "?w = w\<lparr>items := (items w)(GPS_CACHE_KEY \<mapsto> JSON_stringify (JArr (map row_object ?rs)))\<rparr>"
    using append_window [OF Cons.prems] by simp
  have "?rs \<noteq> []" by (simp add: MAX_CACHE_ITEMS_def)
  then have "items ?w GPS_CACHE_KEY = window_item ?rs"
    by (simp add: step window_item_def del: JSON_stringify.simps)
  moreover have "asyncStorageModule ?w = Some a" using Cons.prems(1) by (simp add: step)
  ultimately show ?case
    using Cons.IH [of ?w ?rs] Cons.prems(2,3) by simp
qed

lemma take_append_take: "take n (xs @ take n ys) = take n (xs @ ys)"
  by (simp add: min_def)

lemma reread_window_after:
  "length rs \<le> MAX_CACHE_ITEMS \<Longrightarrow>
   map reread_row (window_after ps rs)
     = take MAX_CACHE_ITEMS (map (\<lambda>p. reread_row (row_of p)) (rev ps) @ map reread_row rs)"
proof (induction ps arbitrary: rs)
  case Nil
  then show ?case by simp
next
  case (Cons p ps)
  let ?rs = "take MAX_CACHE_ITEMS (row_of p # map reread_row rs)"
  have "map reread_row (window_after (p # ps) rs) = map reread_row (window_after ps ?rs)"
    by simp
  also have "\<dots> = take MAX_CACHE_ITEMS
      (map (\<lambda>p. reread_row (row_of p)) (rev ps) @ map reread_row ?rs)"
    by (rule Cons.IH) simp
  also have "map reread_row ?rs
      = take MAX_CACHE_ITEMS (reread_row (row_of p) # map reread_row rs)"
    by (simp add: take_map [symmetric] comp_def del: reread_row.simps)
  also have "take MAX_CACHE_ITEMS (map (\<lambda>p. reread_row (row_of p)) (rev ps)
        @ take MAX_CACHE_ITEMS (reread_row (row_of p) # map reread_row rs))
      = take MAX_CACHE_ITEMS (map (\<lambda>p. reread_row (row_of p)) (rev (p # ps)) @ map reread_row rs)"
    by (simp only: take_append_take) simp
  finally show ?case .
qed

lemma length_window_after:
  "length rs \<le> MAX_CACHE_ITEMS \<Longrightarrow>
   length (window_after ps rs) = min (length ps + length rs) MAX_CACHE_ITEMS"
proof -
  assume "length rs \<le> MAX_CACHE_ITEMS"
  then have "length (map reread_row (window_after ps rs))
      = min (length ps + length rs) MAX_CACHE_ITEMS"
    by (simp only: reread_window_after) simp
  then show ?thesis by simp
qed

lemma read_after_appends:
  assumes "asyncStorageModule w = Some a" and "\<not> getItem_rejects a" and "\<not> setItem_rejects a"
    and "items w GPS_CACHE_KEY = None"
  shows "getCachedGPSData (appends ps w)
      = Inr (take MAX_CACHE_ITEMS (map (\<lambda>p. row_object (reread_row (row_of p))) (rev ps)))"
proof -
  have item: "items w GPS_CACHE_KEY = window_item []"
    using assms(4) by (simp add: window_item_def)
  have "getCachedGPSData (appends ps w)
      = Inr (map (\<lambda>r. row_object (reread_row r)) (window_after ps []))"
    using appends_window [OF assms(1-3) item, of ps] assms(2)
    by (intro read_window_item) simp_all
  also have "map (\<lambda>r. row_object (reread_row r)) (window_after ps [])
      = map row_object (map reread_row (window_after ps []))"
    by (simp add: comp_def)
  also have "\<dots> = take MAX_CACHE_ITEMS (map (\<lambda>p. row_object (reread_row (row_of p))) (rev ps))"
    by (simp only: reread_window_after [of "[]" ps, simplified]) (simp add: take_map comp_def)
  finally show ?thesis .
qed

text \<open>Whatever the store held, what an append returns and writes is cut to the capacity.\<close>

lemma append_bounded:
  assumes "appendGPSData x v = (Inr written, v')"
  shows "length written \<le> MAX_CACHE_ITEMS"
    and "isStorageReady v \<Longrightarrow> items v' GPS_CACHE_KEY = Some (JSON_stringify (JArr written))"
  using assms
  by (auto simp: appendGPSData_def isStorageReady_def setItem_def Let_def
      split: option.splits sum.splits if_splits simp del: JSON_stringify.simps)

text \<open>
  The numbers that are read back as they were written: the finite ones but \<open>-0\<close>.
\<close>

definition storable :: "jsnum \<Rightarrow> bool" where
  "storable x = (case x of Dec neg m n \<Rightarrow> True | Zero neg \<Rightarrow> \<not> neg | _ \<Rightarrow> False)"

definition storable_point :: "GPSDataPoint \<Rightarrow> bool" where
  "storable_point p =
     (storable (latitude p) \<and> storable (longitude p)
      \<and> (case altitude p of None \<Rightarrow> True | Some x \<Rightarrow> storable x)
      \<and> (case accuracy p of None \<Rightarrow> True | Some x \<Rightarrow> storable x)
      \<and> storable (timestamp p))"

lemma storable_reread: "storable x \<Longrightarrow> reread x = Some x"
  by (cases x) (simp_all add: storable_def reread_def)

lemma storable_row: "storable_point p \<Longrightarrow> reread_row (row_of p) = row_of p"
  by (auto simp: storable_point_def row_of_def storable_reread split: option.splits)

lemma storable_objects:
  "list_all storable_point ps \<Longrightarrow>
   map (\<lambda>p. row_object (reread_row (row_of p))) ps = map point_object ps"
  by (induction ps) (simp_all add: storable_row point_object_row del: row_object.simps)

section \<open>The callback over a sequence of positions\<close>

lemma onPosition_admitted:
  assumes "now - lastCachedAtRef (fst sw) \<ge> 5000"
  shows "snd (onPosition position now sw) = [sample_of position]"
    and "lastCachedAtRef (fst (fst (onPosition position now sw))) = now"
    and "snd (fst (onPosition position now sw)) = snd (appendGPSData (sample_of position) (snd sw))"
  using assms
  by (cases sw; simp add: onPosition_def Let_def split: prod.splits sum.splits)+

lemma onPosition_dropped:
  assumes "\<not> now - lastCachedAtRef (fst sw) \<ge> 5000"
  shows "snd (onPosition position now sw) = []"
    and "lastCachedAtRef (fst (fst (onPosition position now sw))) = lastCachedAtRef (fst sw)"
    and "snd (fst (onPosition position now sw)) = snd sw"
  using assms
  by (cases sw; simp add: onPosition_def Let_def)+

lemma positions_Cons:
  "snd (positions ((position, now) # evs) sw)
     = snd (onPosition position now sw) @ snd (positions evs (fst (onPosition position now sw)))"
  "fst (positions ((position, now) # evs) sw) = fst (positions evs (fst (onPosition position now sw)))"
  by (simp_all split: prod.splits)

lemma positions_append:
  "snd (positions (xs @ ys) sw) = snd (positions xs sw) @ snd (positions ys (fst (positions xs sw)))"
  "fst (positions (xs @ ys) sw) = fst (positions ys (fst (positions xs sw)))"
proof (induction xs arbitrary: sw)
  case Nil
  {
    case 1
    show ?case by simp
  next
    case 2
    show ?case by simp
  }
next
  case (Cons ev xs)
  obtain position now where ev: "ev = (position, now)" by (cases ev)
  {
    case 1
    show ?case
      by (simp only: ev append_Cons positions_Cons Cons.IH append_assoc)
  next
    case 2
    show ?case
      by (simp only: ev append_Cons positions_Cons Cons.IH)
  }
qed

lemma positions_dropped:
  assumes "list_all (\<lambda>(position, now). now - lastCachedAtRef (fst sw) < 5000) evs"
  shows "snd (positions evs sw) = []
       \<and> lastCachedAtRef (fst (fst (positions evs sw))) = lastCachedAtRef (fst sw)"
  using assms
proof (induction evs arbitrary: sw)
  case Nil
  show ?case by simp
next
  case (Cons ev evs)
  obtain position now where ev: "ev = (position, now)" by (cases ev)
  from Cons.prems ev have d: "\<not> now - lastCachedAtRef (fst sw) \<ge> 5000" by simp
  let ?sw = "fst (onPosition position now sw)"
  have same: "lastCachedAtRef (fst ?sw) = lastCachedAtRef (fst sw)"
    using d by (rule onPosition_dropped)
  with Cons.prems ev
  have "list_all (\<lambda>(position, now). now - lastCachedAtRef (fst ?sw) < 5000) evs" by simp
  from Cons.IH [OF this] show ?case
    unfolding ev positions_Cons by (simp add: onPosition_dropped(1) [OF d] same)
qed

lemma positions_one:
  assumes "now - lastCachedAtRef (fst sw) \<ge> 5000"
    and "list_all (\<lambda>(position', now'). now' - now < 5000) evs"
  shows "snd (positions ((position, now) # evs) sw) = [sample_of position]
       \<and> lastCachedAtRef (fst (fst (positions ((position, now) # evs) sw))) = now"
proof -
  let ?sw = "fst (onPosition position now sw)"
  have l: "lastCachedAtRef (fst ?sw) = now" using assms(1) by (rule onPosition_admitted)
  with assms(2)
  have "list_all (\<lambda>(position', now'). now' - lastCachedAtRef (fst ?sw) < 5000) evs" by simp
  from positions_dropped [OF this] show ?thesis
    unfolding positions_Cons by (simp add: onPosition_admitted(1) [OF assms(1)] l)
qed

section \<open>The claims\<close>

text \<open>Worlds, points and positions for the examples.\<close>

definition working :: AsyncStorageLike where
  "working = \<lparr>getItem_rejects = False, setItem_rejects = False\<rparr>"

definition no_store :: world where
  "no_store = \<lparr>asyncStorageModule = None, items = Map.empty\<rparr>"

definition empty_store :: world where
  "empty_store = \<lparr>asyncStorageModule = Some working, items = Map.empty\<rparr>"

definition holding :: "jsstring \<Rightarrow> world" where
  "holding raw = \<lparr>asyncStorageModule = Some working, items = [GPS_CACHE_KEY \<mapsto> raw]\<rparr>"

definition origin :: GPSDataPoint where
  "origin = \<lparr>latitude = Zero False, longitude = Zero False, altitude = None,
              accuracy = None, timestamp = Zero False\<rparr>"

definition mountain :: GPSDataPoint where
  "mountain = \<lparr>latitude = Dec False (Many N4 [D5, D8, D3, D2, D6] N2) 2,
                longitude = Dec False (Many N6 [D8, D6, D5, D0, D5] N5) 1,
                altitude = Some (Dec False (Many N4 [D8, D0, D5] N5) 4),
                accuracy = None,
                timestamp = Dec False (Many N1 [D7, D0, D0, D0, D0, D0, D0, D0, D0, D0, D4] N2) 13\<rparr>"

definition hiker :: GPSDataPoint where
  "hiker = \<lparr>latitude = Dec False (Many N4 [D5, D8, D3, D2, D6] N2) 2,
             longitude = Dec True (One N7) (- 3),
             altitude = None,
             accuracy = Some (Dec False (Many N1 [] N2) 23),
             timestamp = Dec False (Many N1 [D7, D0, D0, D0, D0, D0, D0, D0, D0, D0, D4] N2) 13\<rparr>"

definition lost :: GPSDataPoint where
  "lost = \<lparr>latitude = NaN, longitude = Zero False, altitude = None,
            accuracy = None, timestamp = Zero False\<rparr>"

definition foggy :: GPSDataPoint where
  "foggy = \<lparr>latitude = Zero False, longitude = Zero False, altitude = Some NaN,
             accuracy = None, timestamp = Zero False\<rparr>"

definition at_origin :: GPSPosition where
  "at_origin = GPSPosition (GPSCoords (Zero False) (Zero False) None None) (Zero False)"

lemma empty_store_works:
  "asyncStorageModule empty_store = Some working" "\<not> getItem_rejects working"
  "\<not> setItem_rejects working" "items empty_store GPS_CACHE_KEY = None"
  by (simp_all add: empty_store_def working_def)

lemma holding_works:
  "asyncStorageModule (holding raw) = Some working" "\<not> getItem_rejects working"
  "items (holding raw) GPS_CACHE_KEY = Some raw"
  by (simp_all add: holding_def working_def)

lemma storable_examples: "storable_point origin" "storable_point mountain" "storable_point hiker"
  by (simp_all add: storable_point_def storable_def origin_def mountain_def hiker_def)

lemma parse_numbers:
  "JSON_parse (js ''[1,2,3]'')
     = Inr (JArr [JNum (Dec False (One N1) 1), JNum (Dec False (One N2) 1), JNum (Dec False (One N3) 1)])"
  by code_simp

lemma append_to_numbers:
  "\<exists>v'. appendGPSData origin (holding (js ''[1,2,3]''))
     = (Inr [point_object origin, JNum (Dec False (One N1) 1), JNum (Dec False (One N2) 1),
             JNum (Dec False (One N3) 1)], v')"
proof -
  have "js ''[1,2,3]'' \<noteq> []" by (simp add: js_def)
  then show ?thesis
    by (simp add: appendGPSData_def getCachedGPSData_def getAsyncStorage_def getItem_def
        setItem_def holding_def working_def parse_numbers MAX_CACHE_ITEMS_def Let_def
        del: JSON_stringify.simps)
qed

subsection \<open>C1: the order of the window\<close>

text \<open>
  C1, as stated, fails: a sample with a number that is not finite is not read back as
  it was appended, since \<open>JSON.stringify\<close> writes such a number as \<open>null\<close>. Here the
  latitude is \<open>NaN\<close>.
\<close>

theorem fifo_window_counterexample:
  "getCachedGPSData (appends [lost] empty_store)
     \<noteq> Inr (take MAX_CACHE_ITEMS (map point_object (rev [lost])))"
  unfolding read_after_appends [OF empty_store_works]
  by (simp add: MAX_CACHE_ITEMS_def point_object_def row_of_def lost_def reread_def nullable_def)

text \<open>
  C1, amended. For samples whose numbers are finite and not \<open>-0\<close>: after the samples
  \<open>ps\<close> were appended in that order to a working store that held no window,
  \<open>getCachedGPSData\<close> returns them newest first, cut to the first 120; and appending
  one more sample \<open>p\<close> to a window of 120 puts \<open>p\<close> in front and drops the last, the
  oldest, of the 120.
\<close>

theorem fifo_window:
  assumes "asyncStorageModule w = Some a" and "\<not> getItem_rejects a" and "\<not> setItem_rejects a"
    and "items w GPS_CACHE_KEY = None"
    and "list_all storable_point ps" and "storable_point p"
  shows "getCachedGPSData (appends ps w) = Inr (take MAX_CACHE_ITEMS (map point_object (rev ps)))
       \<and> (length ps = MAX_CACHE_ITEMS \<longrightarrow>
            getCachedGPSData (appends (ps @ [p]) w)
              = Inr (point_object p # butlast (map point_object (rev ps))))"
proof -
  have read: "getCachedGPSData (appends qs w) = Inr (take MAX_CACHE_ITEMS (map point_object (rev qs)))"
    if "list_all storable_point qs" for qs
  proof -
    from that have "list_all storable_point (rev qs)" by (simp add: list_all_iff)
    then show ?thesis
      by (simp only: read_after_appends [OF assms(1-4)] storable_objects)
  qed
  have "take MAX_CACHE_ITEMS (map point_object (rev (ps @ [p])))
      = point_object p # butlast (map point_object (rev ps))"
    if "length ps = MAX_CACHE_ITEMS"
    using that by (simp add: MAX_CACHE_ITEMS_def butlast_conv_take)
  moreover have "list_all storable_point (ps @ [p])" using assms(5,6) by simp
  ultimately show ?thesis using read [of ps] read [of "ps @ [p]"] assms(5) by simp
qed

theorem fifo_window_witness:
  "getCachedGPSData (appends [origin, mountain] empty_store)
     = Inr [point_object mountain, point_object origin]
   \<and> getCachedGPSData (appends (replicate 120 origin @ [mountain]) empty_store)
     = Inr (point_object mountain # replicate 119 (point_object origin))"
proof -
  have "list_all storable_point [origin, mountain]" using storable_examples by simp
  from fifo_window [OF empty_store_works this storable_examples(2)]
  have one: "getCachedGPSData (appends [origin, mountain] empty_store)
      = Inr [point_object mountain, point_object origin]"
    by (simp add: MAX_CACHE_ITEMS_def)
  have "list_all storable_point (replicate 120 origin)"
    using storable_examples by (simp add: list_all_iff)
  from fifo_window [OF empty_store_works this storable_examples(2)]
  have "getCachedGPSData (appends (replicate 120 origin @ [mountain]) empty_store)
      = Inr (point_object mountain # butlast (map point_object (rev (replicate 120 origin))))"
    by (simp add: MAX_CACHE_ITEMS_def)
  also have "butlast (map point_object (rev (replicate 120 origin)))
      = replicate 119 (point_object origin)"
    by (simp add: butlast_conv_take)
  finally show ?thesis using one by simp
qed

subsection \<open>C2: the capacity\<close>

text \<open>
  C2. After any number of samples \<open>ps\<close>, whatever their numbers, were appended to a
  working store that held no window, \<open>getCachedGPSData\<close> returns a sequence of length
  \<open>min (length ps) 120\<close>, and the store holds, under the key of the cache, nothing before
  the first append and afterwards the text of an array \<open>ys\<close> of that length. And from
  any world \<open>v\<close>, whatever its store holds: the window that an append returns has at
  most 120 elements, and it is the text of that window that the append has written. A
  read writes nothing.
\<close>

theorem capacity:
  assumes "asyncStorageModule w = Some a" and "\<not> getItem_rejects a" and "\<not> setItem_rejects a"
    and "items w GPS_CACHE_KEY = None"
  shows "(\<exists>xs ys. getCachedGPSData (appends ps w) = Inr xs
           \<and> length xs = min (length ps) MAX_CACHE_ITEMS
           \<and> items (appends ps w) GPS_CACHE_KEY
               = (if ps = [] then None else Some (JSON_stringify (JArr ys)))
           \<and> length ys = min (length ps) MAX_CACHE_ITEMS)
       \<and> (appendGPSData x v = (Inr written, v') \<longrightarrow>
             length written \<le> MAX_CACHE_ITEMS
             \<and> (isStorageReady v \<longrightarrow> items v' GPS_CACHE_KEY = Some (JSON_stringify (JArr written))))"
proof -
  have item: "items w GPS_CACHE_KEY = window_item []"
    using assms(4) by (simp add: window_item_def)
  let ?rs = "window_after ps []"
  have len: "length ?rs = min (length ps) MAX_CACHE_ITEMS"
    using length_window_after [of "[]" ps] by simp
  have "items (appends ps w) GPS_CACHE_KEY = window_item ?rs"
    using appends_window [OF assms(1-3) item] by simp
  moreover have "(?rs = []) = (ps = [])"
    using len by (cases ps) (auto simp: MAX_CACHE_ITEMS_def)
  ultimately have "items (appends ps w) GPS_CACHE_KEY
      = (if ps = [] then None else Some (JSON_stringify (JArr (map row_object ?rs))))"
    by (simp add: window_item_def del: JSON_stringify.simps)
  moreover have "getCachedGPSData (appends ps w)
      = Inr (take MAX_CACHE_ITEMS (map (\<lambda>p. row_object (reread_row (row_of p))) (rev ps)))"
    by (rule read_after_appends [OF assms])
  ultimately have "\<exists>xs ys. getCachedGPSData (appends ps w) = Inr xs
           \<and> length xs = min (length ps) MAX_CACHE_ITEMS
           \<and> items (appends ps w) GPS_CACHE_KEY
               = (if ps = [] then None else Some (JSON_stringify (JArr ys)))
           \<and> length ys = min (length ps) MAX_CACHE_ITEMS"
    using len by (intro exI [of _ "map row_object ?rs"] exI conjI) (assumption, simp_all)
  then show ?thesis
    using append_bounded [of x v written v'] by blast
qed

theorem capacity_witness:
  "(\<exists>xs. getCachedGPSData (appends [lost, origin, mountain] empty_store) = Inr xs \<and> length xs = 3)
   \<and> (\<exists>xs. getCachedGPSData (appends (replicate 121 lost) empty_store) = Inr xs \<and> length xs = 120)
   \<and> (\<exists>written v'. appendGPSData origin (holding (js ''[1,2,3]'')) = (Inr written, v')
         \<and> length written \<le> 120
         \<and> items v' GPS_CACHE_KEY = Some (JSON_stringify (JArr written)))"
proof -
  obtain v' where v': "appendGPSData origin (holding (js ''[1,2,3]''))
      = (Inr [point_object origin, JNum (Dec False (One N1) 1), JNum (Dec False (One N2) 1),
              JNum (Dec False (One N3) 1)], v')"
    using append_to_numbers by blast
  have ready: "isStorageReady (holding (js ''[1,2,3]''))"
    by (simp add: isStorageReady_def getAsyncStorage_def holding_def)
  have three: "\<exists>xs. getCachedGPSData (appends [lost, origin, mountain] empty_store) = Inr xs
      \<and> length xs = 3"
    using capacity [OF empty_store_works, where ps = "[lost, origin, mountain]", THEN conjunct1]
    by (auto simp: MAX_CACHE_ITEMS_def simp del: appends.simps)
  have full: "\<exists>xs. getCachedGPSData (appends (replicate 121 lost) empty_store) = Inr xs
      \<and> length xs = 120"
    using capacity [OF empty_store_works, where ps = "replicate 121 lost", THEN conjunct1]
    by (auto simp: MAX_CACHE_ITEMS_def)
  have foreign: "\<exists>written v'. appendGPSData origin (holding (js ''[1,2,3]'')) = (Inr written, v')
      \<and> length written \<le> 120
      \<and> items v' GPS_CACHE_KEY = Some (JSON_stringify (JArr written))"
    using capacity [OF empty_store_works, where x = origin and v = "holding (js ''[1,2,3]'')"
        and v' = v'
        and written = "[point_object origin, JNum (Dec False (One N1) 1),
          JNum (Dec False (One N2) 1), JNum (Dec False (One N3) 1)]", THEN conjunct2]
      v' ready
    by (auto simp: MAX_CACHE_ITEMS_def simp del: JSON_stringify.simps)
  from three full foreign show ?thesis by (intro conjI)
qed

subsection \<open>C3: the store is unavailable\<close>

text \<open>
  C3. When the storage module cannot be resolved, \<open>getCachedGPSData\<close> returns the empty
  sequence, and \<open>appendGPSData x\<close> returns the empty sequence and leaves the world as it
  was, whatever the store holds: once the module resolves again, to any module \<open>a\<close>,
  a read is the read of the world before the call.
\<close>

theorem unavailable_degradation:
  assumes "asyncStorageModule w = None"
  shows "getCachedGPSData w = Inr []
       \<and> appendGPSData x w = (Inr [], w)
       \<and> getCachedGPSData (snd (appendGPSData x w)\<lparr>asyncStorageModule := Some a\<rparr>)
           = getCachedGPSData (w\<lparr>asyncStorageModule := Some a\<rparr>)"
  using assms by (simp add: getCachedGPSData_def appendGPSData_def getAsyncStorage_def)

theorem unavailable_degradation_witness:
  "asyncStorageModule no_store = None
   \<and> getCachedGPSData no_store = Inr []
   \<and> appendGPSData origin no_store = (Inr [], no_store)"
  using unavailable_degradation [of no_store origin]
  by (simp add: no_store_def)

subsection \<open>C4: an item that is not an array\<close>

text \<open>
  C4. When the item the store holds is the text \<open>not json\<close>, or the text of a JSON
  object, or any text that \<open>JSON.parse\<close> does not read as an array, \<open>getCachedGPSData\<close>
  returns the empty sequence: a value, not a rejection.
\<close>

theorem malformed_recovery:
  assumes "asyncStorageModule w = Some a" and "\<not> getItem_rejects a"
    and "items w GPS_CACHE_KEY = Some raw"
    and "raw = js ''not json'' \<or> (\<exists>kvs. JSON_parse raw = Inr (JObj kvs))
         \<or> (\<forall>vs. JSON_parse raw \<noteq> Inr (JArr vs))"
  shows "getCachedGPSData w = Inr []"
proof -
  have "JSON_parse (js ''not json'') = Inl SyntaxError" by code_simp
  with assms(4) have "\<forall>vs. JSON_parse raw \<noteq> Inr (JArr vs)" by auto
  then have "case JSON_parse raw of Inl e \<Rightarrow> True | Inr v \<Rightarrow> \<not> Array_isArray v"
    by (cases "JSON_parse raw") (auto elim: Array_isArray.elims)
  with assms(1-3) show ?thesis
    by (auto simp: getCachedGPSData_def getAsyncStorage_def getItem_def split: sum.splits)
qed

theorem malformed_recovery_witness:
  "getCachedGPSData (holding (js ''not json'')) = Inr []
   \<and> JSON_parse (JSON_stringify (point_object origin)) = Inr (point_object origin)
   \<and> getCachedGPSData (holding (JSON_stringify (point_object origin))) = Inr []"
proof -
  have obj: "JSON_parse (JSON_stringify (point_object origin)) = Inr (point_object origin)"
    unfolding point_object_row parse_stringify_row
    by (simp add: row_of_def origin_def reread_def)
  have "\<exists>kvs. JSON_parse (JSON_stringify (point_object origin)) = Inr (JObj kvs)"
    unfolding obj by (simp add: point_object_def)
  then show ?thesis
    using malformed_recovery [OF holding_works, of "js ''not json''"]
      malformed_recovery [OF holding_works, of "JSON_stringify (point_object origin)"] obj
    by blast
qed

subsection \<open>C5: a read that rejects\<close>

text \<open>
  C5, as stated, fails: the \<open>await\<close> of \<open>getItem\<close> stands before the \<open>try\<close>, so a
  \<open>getItem\<close> that rejects makes \<open>getCachedGPSData\<close> reject.
\<close>

theorem read_rejects_counterexample:
  "getCachedGPSData
     \<lparr>asyncStorageModule = Some \<lparr>getItem_rejects = True, setItem_rejects = False\<rparr>,
      items = Map.empty\<rparr> = Inl Rejected"
  by (simp add: getCachedGPSData_def getAsyncStorage_def getItem_def)

text \<open>
  C5, amended. \<open>getCachedGPSData\<close> returns a sequence, whatever the store holds (no
  item, an item that is not JSON, an item that is not an array) and also when the module
  cannot be resolved, exactly when the \<open>getItem\<close> of a resolved module does not reject.
\<close>

theorem read_returns:
  "(\<exists>xs. getCachedGPSData w = Inr xs)
     = (\<not> (\<exists>a. asyncStorageModule w = Some a \<and> getItem_rejects a))"
  by (auto simp: getCachedGPSData_def getAsyncStorage_def getItem_def
      split: option.splits sum.splits)

theorem read_returns_witness:
  "(\<exists>xs. getCachedGPSData no_store = Inr xs)
   \<and> (\<exists>xs. getCachedGPSData (holding (js ''not json'')) = Inr xs)"
  using read_returns [of no_store] read_returns [of "holding (js ''not json'')"]
  by (simp add: no_store_def holding_def working_def)

subsection \<open>C6: the throttle\<close>

text \<open>
  The times of 50 samples that span 10100 ms with even spacing, to the millisecond:
  the sample \<open>i\<close> comes \<open>10100 i / 49\<close> ms, rounded down, after the first.
\<close>

definition even_burst :: "(nat \<Rightarrow> GPSPosition) \<Rightarrow> int \<Rightarrow> (GPSPosition \<times> int) list" where
  "even_burst source t0 = map (\<lambda>i. (source i, t0 + 10100 * int i div 49)) [0..<50]"

text \<open>
  C6. The callback hands a sample to \<open>appendGPSData\<close> exactly when
  \<open>now - lastCachedAtRef \<ge> 5000\<close>, and then sets \<open>lastCachedAtRef\<close> to \<open>now\<close>;
  otherwise the reference and the world stay as they were. Of 50 samples that arrive
  within 4900 ms of the first, the first of which is admitted, that first one is the
  only one admitted. Of 50 samples that span 10100 ms with even spacing, the first of
  which is admitted, exactly two are admitted: the first and the one of index 25, the
  first that comes 5000 ms or more after it.
\<close>

theorem throttle:
  "snd (onPosition position now (s, w))
     = (if now - lastCachedAtRef s \<ge> 5000 then [sample_of position] else [])
   \<and> lastCachedAtRef (fst (fst (onPosition position now (s, w))))
     = (if now - lastCachedAtRef s \<ge> 5000 then now else lastCachedAtRef s)
   \<and> snd (fst (onPosition position now (s, w)))
     = (if now - lastCachedAtRef s \<ge> 5000 then snd (appendGPSData (sample_of position) w) else w)
   \<and> (length evs = 50 \<and> t0 = snd (hd evs) \<and> t0 - lastCachedAtRef s \<ge> 5000
        \<and> list_all (\<lambda>(position, t). t0 \<le> t \<and> t \<le> t0 + 4900) evs
      \<longrightarrow> snd (positions evs (s, w)) = [sample_of (fst (hd evs))])
   \<and> (t0 - lastCachedAtRef s \<ge> 5000
      \<longrightarrow> snd (positions (even_burst source t0) (s, w)) = [sample_of (source 0), sample_of (source 25)])"
proof -
  have one: "snd (onPosition position now (s, w))
        = (if now - lastCachedAtRef s \<ge> 5000 then [sample_of position] else [])
      \<and> lastCachedAtRef (fst (fst (onPosition position now (s, w))))
        = (if now - lastCachedAtRef s \<ge> 5000 then now else lastCachedAtRef s)
      \<and> snd (fst (onPosition position now (s, w)))
        = (if now - lastCachedAtRef s \<ge> 5000 then snd (appendGPSData (sample_of position) w) else w)"
    using onPosition_admitted [where sw = "(s, w)" and now = now and position = position]
      onPosition_dropped [where sw = "(s, w)" and now = now and position = position]
    by (cases "now - lastCachedAtRef s \<ge> 5000") simp_all
  have burst: "snd (positions evs (s, w)) = [sample_of (fst (hd evs))]"
    if "length evs = 50" "t0 = snd (hd evs)" "t0 - lastCachedAtRef s \<ge> 5000"
      "list_all (\<lambda>(position, t). t0 \<le> t \<and> t \<le> t0 + 4900) evs"
  proof -
    from that(1) obtain p t rest where evs: "evs = (p, t) # rest" by (cases evs) auto
    with that(2) have t: "t = t0" by simp
    from that(4) evs have "list_all (\<lambda>(position', now'). now' - t0 < 5000) rest"
      by (auto simp: list_all_iff)
    with that(3) show ?thesis
      using positions_one [where now = t0 and sw = "(s, w)" and evs = rest and position = p]
      by (simp add: evs t)
  qed
  have even: "snd (positions (even_burst source t0) (s, w)) = [sample_of (source 0), sample_of (source 25)]"
    if a: "t0 - lastCachedAtRef s \<ge> 5000"
  proof -
    let ?ev = "\<lambda>i. (source i, t0 + 10100 * int i div 49)"
    let ?g1 = "?ev 0 # map ?ev [1..<25]" and ?g2 = "?ev 25 # map ?ev [26..<50]"
    have "[0..<50] = [0] @ [1..<25] @ [25] @ [26..<50]"
      by code_simp
    then have split: "even_burst source t0 = ?g1 @ ?g2"
      unfolding even_burst_def by (simp only: map_append list.map append_Cons append_Nil)
    have "list_all (\<lambda>(position', now'). now' - t0 < 5000) (map ?ev [1..<25])"
      by (auto simp: list_all_iff)
    with a have g1: "snd (positions ?g1 (s, w)) = [sample_of (source 0)]"
      "lastCachedAtRef (fst (fst (positions ?g1 (s, w)))) = t0"
      using positions_one [where now = t0 and sw = "(s, w)" and evs = "map ?ev [1..<25]"
          and position = "source 0"] by simp_all
    have "list_all (\<lambda>(position', now'). now' - (t0 + 10100 * int 25 div 49) < 5000)
        (map ?ev [26..<50])"
      by (auto simp: list_all_iff)
    moreover have "t0 + 10100 * int 25 div 49 - lastCachedAtRef (fst (fst (positions ?g1 (s, w))))
        \<ge> 5000"
      unfolding g1(2) by simp
    ultimately have g2: "snd (positions ?g2 (fst (positions ?g1 (s, w)))) = [sample_of (source 25)]"
      using positions_one [where now = "t0 + 10100 * int 25 div 49"
          and sw = "fst (positions ?g1 (s, w))" and evs = "map ?ev [26..<50]"
          and position = "source 25"]
      by simp
    show ?thesis
      unfolding split positions_append g1(1) g2 by simp
  qed
  from one burst even show ?thesis by blast
qed

theorem throttle_witness:
  "snd (positions (map (\<lambda>i. (at_origin, 1700000000000 + 100 * int i)) [0..<50]) (mounted, empty_store))
     = [sample_of at_origin]
   \<and> snd (positions (even_burst (\<lambda>i. at_origin) 1700000000000) (mounted, empty_store))
     = [sample_of at_origin, sample_of at_origin]"
proof -
  let ?evs = "map (\<lambda>i. (at_origin, 1700000000000 + 100 * int i)) [0..<50]"
  have h: "length ?evs = 50" "1700000000000 = snd (hd ?evs)"
    "(1700000000000 :: int) - lastCachedAtRef mounted \<ge> 5000"
    "list_all (\<lambda>(position, t). 1700000000000 \<le> t \<and> t \<le> 1700000000000 + 4900) ?evs"
    by (auto simp: mounted_def list_all_iff upt_rec [of 0 50])
  show ?thesis
    using throttle [where s = mounted and w = empty_store and evs = ?evs
        and ?t0.0 = 1700000000000 and source = "\<lambda>i. at_origin"] h
    by (simp add: upt_rec [of 0 50])
qed

subsection \<open>C7: the first sample\<close>

text \<open>
  C7. The first sample delivered to a screen that was just mounted is admitted,
  however little time has passed since the mount: \<open>lastCachedAtRef\<close> is 0, so the
  condition is \<open>now - 0 \<ge> 5000\<close>, which holds at every reading of the clock of at
  least 5000. \<open>Date.now()\<close> counts the milliseconds since 1970, so every reading of a
  device's clock is. The sample is handed to \<open>appendGPSData\<close>, and \<open>lastCachedAtRef\<close>
  becomes the reading of the clock.
\<close>

theorem first_sample_admitted:
  assumes "5000 \<le> now"
  shows "snd (onPosition position now (mounted, w)) = [sample_of position]
       \<and> lastCachedAtRef (fst (fst (onPosition position now (mounted, w)))) = now
       \<and> snd (fst (onPosition position now (mounted, w)))
           = snd (appendGPSData (sample_of position) w)"
  using assms by (simp add: onPosition_def mounted_def Let_def split: prod.splits sum.splits)

theorem first_sample_admitted_witness:
  "(5000 :: int) \<le> 1700000000000
   \<and> snd (onPosition at_origin 1700000000000 (mounted, empty_store)) = [sample_of at_origin]"
  using first_sample_admitted [of 1700000000000 at_origin empty_store]
  by simp

subsection \<open>C8: writing a window and reading it\<close>

text \<open>
  C8, as stated, fails: a number that is not finite is written \<open>null\<close>, so a window
  with such a number is not read back as it was. Here the altitude is \<open>NaN\<close>, and is
  read back as absent.
\<close>

theorem round_trip_counterexample:
  "JSON_parse (JSON_stringify (JArr [point_object foggy])) \<noteq> Inr (JArr [point_object foggy])"
proof -
  have "JSON_parse (JSON_stringify (JArr (map row_object [row_of foggy])))
      = Inr (JArr (map (\<lambda>r. row_object (reread_row r)) [row_of foggy]))"
    by (rule parse_stringify_rows)
  then show ?thesis
    by (simp add: point_object_row [symmetric] del: JSON_stringify.simps)
      (simp add: point_object_def row_of_def foggy_def reread_def nullable_def)
qed

text \<open>
  C8, amended. For every window of samples whose numbers are finite and not \<open>-0\<close>,
  with altitude or accuracy absent or not: \<open>JSON.parse\<close> reads the text that
  \<open>JSON.stringify\<close> wrote of the window as the window, and \<open>getCachedGPSData\<close> returns
  the window from a store that holds that text.
\<close>

theorem round_trip:
  assumes "list_all storable_point ps"
  shows "JSON_parse (JSON_stringify (JArr (map point_object ps))) = Inr (JArr (map point_object ps))
       \<and> (asyncStorageModule w = Some a \<and> \<not> getItem_rejects a
            \<and> items w GPS_CACHE_KEY = Some (JSON_stringify (JArr (map point_object ps)))
          \<longrightarrow> getCachedGPSData w = Inr (map point_object ps))"
proof -
  have objs: "map point_object ps = map row_object (map row_of ps)"
    by (simp add: point_object_row del: row_object.simps)
  have same: "map (\<lambda>r. row_object (reread_row r)) (map row_of ps) = map point_object ps"
    using storable_objects [OF assms] by (simp add: comp_def del: row_object.simps)
  have "JSON_parse (JSON_stringify (JArr (map point_object ps))) = Inr (JArr (map point_object ps))"
    unfolding objs parse_stringify_rows same [unfolded objs] ..
  moreover have "getCachedGPSData w = Inr (map point_object ps)"
    if "asyncStorageModule w = Some a" "\<not> getItem_rejects a"
      "items w GPS_CACHE_KEY = Some (JSON_stringify (JArr (map point_object ps)))"
    using read_window [OF that(1,2) that(3) [unfolded objs]] same by simp
  ultimately show ?thesis by blast
qed

theorem round_trip_witness:
  "list_all storable_point [hiker, origin]
   \<and> JSON_parse (JSON_stringify (JArr (map point_object [hiker, origin])))
       = Inr (JArr (map point_object [hiker, origin]))
   \<and> getCachedGPSData (holding (JSON_stringify (JArr (map point_object [hiker, origin]))))
       = Inr (map point_object [hiker, origin])"
proof -
  have s: "list_all storable_point [hiker, origin]"
    using storable_examples by simp
  show ?thesis
    using s round_trip [where ps = "[hiker, origin]" and a = working
        and w = "holding (JSON_stringify (JArr (map point_object [hiker, origin])))"]
      holding_works(1,3) [of "JSON_stringify (JArr (map point_object [hiker, origin]))"]
      holding_works(2)
    by blast
qed

subsection \<open>C9: a poll while the store is unavailable\<close>

text \<open>
  C9, as stated, fails: when the module cannot be resolved, \<open>load\<close> sets the message and
  returns before it sets \<open>cachedData\<close>, so a sequence published earlier stays.
\<close>

theorem stale_window_counterexample:
  "cachedData (fst (load no_store \<lparr>cachedData = [point_object origin], homeStorageMessage = None\<rparr>))
     = [point_object origin]"
  by (simp add: load_def isStorageReady_def getAsyncStorage_def no_store_def)

text \<open>
  C9, amended. When the module cannot be resolved at a poll, \<open>load\<close> publishes the
  advisory message, ends without an error, and leaves the published sequence as it was
  (the empty sequence when nothing was published before).
\<close>

theorem poll_unavailable:
  assumes "\<not> isStorageReady w"
  shows "load w h = (h\<lparr>homeStorageMessage :=
             Some ''Storage module missing. Run: npm i @react-native-async-storage/async-storage''\<rparr>, None)"
  using assms by (simp add: load_def)

theorem poll_unavailable_witness:
  "\<not> isStorageReady no_store
   \<and> load no_store \<lparr>cachedData = [], homeStorageMessage = None\<rparr>
       = (\<lparr>cachedData = [],
           homeStorageMessage =
             Some ''Storage module missing. Run: npm i @react-native-async-storage/async-storage''\<rparr>,
          None)"
proof -
  have h: "\<not> isStorageReady no_store"
    by (simp add: isStorageReady_def getAsyncStorage_def no_store_def)
  show ?thesis
    using h poll_unavailable [OF h, of "\<lparr>cachedData = [], homeStorageMessage = None\<rparr>"]
    by simp
qed

subsection \<open>C10: an array of anything\<close>

text \<open>
  C10. When the item the store holds is read by \<open>JSON.parse\<close> as an array,
  \<open>getCachedGPSData\<close> returns the elements of that array as they are, whatever they
  are: the text \<open>[1,2,3]\<close> gives the three numbers, not the empty window.
\<close>

theorem array_as_is:
  assumes "asyncStorageModule w = Some a" and "\<not> getItem_rejects a"
    and "items w GPS_CACHE_KEY = Some raw" and "JSON_parse raw = Inr (JArr vs)"
  shows "getCachedGPSData w = Inr vs"
proof -
  from assms(4) have "raw \<noteq> []" using parse_empty by auto
  with assms show ?thesis
    by (simp add: getCachedGPSData_def getAsyncStorage_def getItem_def)
qed

theorem array_as_is_witness:
  "JSON_parse (js ''[1,2,3]'')
     = Inr (JArr [JNum (Dec False (One N1) 1), JNum (Dec False (One N2) 1), JNum (Dec False (One N3) 1)])
   \<and> getCachedGPSData (holding (js ''[1,2,3]''))
     = Inr [JNum (Dec False (One N1) 1), JNum (Dec False (One N2) 1), JNum (Dec False (One N3) 1)]"
proof -
  show ?thesis
    using parse_numbers array_as_is [OF holding_works parse_numbers] by simp
qed

end
